theory Spec2Isabelle
  imports
    Complex_Main
    "HOL-Library.Char_ord"
    "HOL-Library.List_Lexorder"
    "HOL-Library.Product_Lexorder"
    "HOL-Library.Multiset" "HOL-Library.Word"
begin

unbundle bit_operations_syntax

section \<open>SQL values and the platform\<close>

text \<open>
  The store is PostgreSQL with PostGIS; the two edge functions are TypeScript on Deno.
  Instants (\<open>timestamptz\<close>) and calendar days (\<open>date\<close>) are integers on their own
  scales, \<open>double precision\<close> coordinates are reals (the only operations the code
  applies to them are comparisons with the constants -180, -90, 90 and 180, which are
  exact on doubles; a NaN or an infinity is outside both ranges in PostgreSQL's order
  and is not a value of the model).  A Socrata record is a JSON object; the SQL reads
  it only with \<open>->>\<close>, which yields the text of a field, or NULL for a field that is
  missing or JSON null, so a record is the association list of its non-null fields.
\<close>

type_synonym timestamptz = int
type_synonym sqldate = int
type_synonym float8 = real
type_synonym point = "float8 \<times> float8"
type_synonym bytea = "8 word list"
type_synonym jsonb = "(string \<times> string) list"

definition json_text :: "jsonb \<Rightarrow> string \<Rightarrow> string option" where
  \<comment> \<open>\<open>r ->> 'k'\<close>\<close>
  "json_text r k = map_of r k"

definition coalesce :: "'a option \<Rightarrow> 'a option \<Rightarrow> 'a option" where
  "coalesce a b = (case a of Some v \<Rightarrow> Some v | None \<Rightarrow> b)"

text \<open>
  PostgreSQL's input functions and casts are not code of the repository: they are
  parameters of the model.  An input function returns \<open>None\<close> where PostgreSQL raises
  "invalid input syntax".
\<close>

record postgres =
  timestamptz_in :: "string \<Rightarrow> timestamptz option"
  date_in :: "string \<Rightarrow> sqldate option"
  float8_in :: "string \<Rightarrow> float8 option"
  date_to_timestamptz :: "sqldate \<Rightarrow> timestamptz"
  timestamptz_to_date :: "timestamptz \<Rightarrow> sqldate"

datatype sql_error =
    InvalidTextRepresentation
  | NotNullViolation
  | CardinalityViolation

definition bind_err :: "'e + 'a \<Rightarrow> ('a \<Rightarrow> 'e + 'b) \<Rightarrow> 'e + 'b" where
  "bind_err m f = (case m of Inl e \<Rightarrow> Inl e | Inr a \<Rightarrow> f a)"

fun map_err :: "('a \<Rightarrow> 'e + 'b) \<Rightarrow> 'a list \<Rightarrow> 'e + 'b list" where
  "map_err f [] = Inr []"
| "map_err f (x # xs) =
     (case f x of
        Inl e \<Rightarrow> Inl e
      | Inr y \<Rightarrow> (case map_err f xs of Inl e \<Rightarrow> Inl e | Inr ys \<Rightarrow> Inr (y # ys)))"

definition cast_text :: "(string \<Rightarrow> 'a option) \<Rightarrow> string option \<Rightarrow> sql_error + 'a option" where
  \<comment> \<open>\<open>(text)::type\<close>: NULL stays NULL, any other text goes through the input function\<close>
  "cast_text f v =
     (case v of
        None \<Rightarrow> Inr None
      | Some s \<Rightarrow> (case f s of None \<Rightarrow> Inl InvalidTextRepresentation | Some a \<Rightarrow> Inr (Some a)))"

definition cast_nonempty :: "(string \<Rightarrow> 'a option) \<Rightarrow> string option \<Rightarrow> sql_error + 'a option" where
  \<comment> \<open>\<open>case when s is not null and s != '' then s::type else null end\<close>\<close>
  "cast_nonempty f v =
     (case v of
        None \<Rightarrow> Inr None
      | Some s \<Rightarrow> if s \<noteq> [] then cast_text f (Some s) else Inr None)"

definition trim :: "string \<Rightarrow> string" where
  \<comment> \<open>\<open>trim(text)\<close> strips spaces at both ends\<close>
  "trim s = rev (dropWhile (\<lambda>c. c = CHR '' '') (rev (dropWhile (\<lambda>c. c = CHR '' '') s)))"

definition nonblank :: "string option \<Rightarrow> bool" where
  \<comment> \<open>\<open>v is not null and trim(v) != ''\<close>\<close>
  "nonblank v = (case v of None \<Rightarrow> False | Some s \<Rightarrow> trim s \<noteq> [])"

definition nullif_trim :: "string option \<Rightarrow> string option" where
  \<comment> \<open>\<open>nullif(trim(v), '')\<close>\<close>
  "nullif_trim v = (case v of None \<Rightarrow> None | Some s \<Rightarrow> if trim s = [] then None else Some (trim s))"

fun distinct_on :: "('a \<Rightarrow> 'k) \<Rightarrow> 'a list \<Rightarrow> 'a list" where
  \<comment> \<open>\<open>select distinct on (k)\<close>: the first row of every group of rows equal on \<open>k\<close>
      (NULLs count as equal); without an ORDER BY the choice is PostgreSQL's, and the
      model takes the rows in the order of the page\<close>
  "distinct_on k [] = []"
| "distinct_on k (x # xs) = x # distinct_on k (filter (\<lambda>y. k y \<noteq> k x) xs)"

fun upsert_by :: "('r \<Rightarrow> 'k) \<Rightarrow> 'r \<Rightarrow> 'r list \<Rightarrow> 'r list" where
  \<comment> \<open>\<open>insert ... on conflict (k) do update set\<close> every other column \<open>= excluded\<close>\<close>
  "upsert_by k r [] = [r]"
| "upsert_by k r (x # xs) = (if k x = k r then r # xs else x # upsert_by k r xs)"

section \<open>The normalized store (0001_init_schema.sql)\<close>

record building =
  b_bin :: string
  b_block :: "string option"
  b_lot :: "string option"
  b_borough :: "string option"
  b_street_name :: "string option"
  b_house_no :: "string option"
  b_zipcode :: "string option"
  b_census_tract :: "string option"
  b_nta_name :: "string option"

record permit_detail =
  d_permit_number :: string
  d_job_number :: "string option"
  d_permit_sequence_no :: "string option"
  d_permit_subtype :: "string option"
  d_filing_status :: "string option"
  d_filing_date :: "timestamptz option"
  d_site_fill :: "string option"
  d_oil_gas :: "string option"
  d_self_cert :: "string option"
  d_special_district_1 :: "string option"
  d_special_district_2 :: "string option"

record permit =
  p_id :: string
  p_updated_at :: timestamptz
  p_borough :: "string option"
  p_bin :: "string option"
  p_gis_latitude :: "float8 option"
  p_gis_longitude :: "float8 option"
  p_community_board :: "string option"
  p_council_district :: "string option"
  p_nta_name :: "string option"
  p_zipcode :: "string option"
  p_permit_issuance_date :: "timestamptz option"
  p_expiration_date :: "timestamptz option"
  p_job_start_date :: "timestamptz option"
  p_permit_status :: "string option"
  p_permit_type :: "string option"
  p_work_type :: "string option"
  p_job_type :: "string option"
  p_bldg_type :: "string option"
  p_residential :: "string option"
  p_dobrundate :: "timestamptz option"
  p_permit_number :: "string option"
  p_raw :: jsonb
  p_geom :: "point option"
  p_geom_4326 :: "point option"

record mvt_cache_row =
  c_layer :: string
  c_z :: int
  c_x :: int
  c_y :: int
  c_since :: string
  c_until :: string
  c_mvt :: string
  c_updated_at :: timestamptz

text \<open>
  \<open>entity_id uuid default gen_random_uuid()\<close>: the model draws the table's row count,
  which is fresh because no statement of the repository deletes an entity.  The columns
  other than the id are a record of their own, the shape of a row proposed for insertion.

  A table is a list: its rows in the order in which a scan delivers them.  SQL gives that
  order no meaning.  A statement without \<open>order by\<close> sees the rows in the order of the
  list, and a later scan of an unchanged table may deliver them in another order (another
  plan, parallel workers, a synchronized scan): the same data is any list with the same
  rows, each as often.
\<close>

record entity_cols =
  e_entity_type :: string
  e_full_name :: "string option"
  e_business_name :: "string option"
  e_license_type :: "string option"
  e_license_number :: "string option"
  e_phone :: "string option"
  e_address :: "string option"
  e_city :: "string option"
  e_state :: "string option"
  e_zip :: "string option"

record entity = entity_cols +
  e_entity_id :: nat

record store =
  dob_buildings :: "building list"
  dob_permit_details :: "permit_detail list"
  dob_entities :: "entity list"
  dob_permits :: "permit list"
  dataset_sync_state :: "(string \<times> timestamptz) list"
  mvt_cache :: "mvt_cache_row list"

definition ST_Point :: "float8 \<Rightarrow> float8 \<Rightarrow> point" where
  \<comment> \<open>\<open>ST_SetSRID(ST_Point(x, y), 4326)\<close>: the model's points are all in SRID 4326\<close>
  "ST_Point x y = (x, y)"

definition coords_valid :: "float8 option \<Rightarrow> float8 option \<Rightarrow> bool" where
  "coords_valid lat lon =
     (case (lat, lon) of
        (Some la, Some lo) \<Rightarrow> - 90 \<le> la \<and> la \<le> 90 \<and> - 180 \<le> lo \<and> lo \<le> 180
      | _ \<Rightarrow> False)"

definition populate_geom_from_coords :: "permit \<Rightarrow> permit" where
  \<comment> \<open>the trigger \<open>before insert or update on dob_permits for each row\<close>\<close>
  "populate_geom_from_coords new =
     (case (p_gis_latitude new, p_gis_longitude new) of
        (Some la, Some lo) \<Rightarrow>
          if - 90 \<le> la \<and> la \<le> 90 \<and> - 180 \<le> lo \<and> lo \<le> 180
          then new\<lparr>p_geom := Some (ST_Point lo la), p_geom_4326 := Some (ST_Point lo la)\<rparr>
          else new\<lparr>p_geom := None, p_geom_4326 := None\<rparr>
      | _ \<Rightarrow> new\<lparr>p_geom := None, p_geom_4326 := None\<rparr>)"

definition v_dob_permits_pts :: "store \<Rightarrow> permit list" where
  \<comment> \<open>the view: \<open>select ... from dob_permits where geom is not null\<close>\<close>
  "v_dob_permits_pts s = filter (\<lambda>p. p_geom p \<noteq> None) (dob_permits s)"

section \<open>The bulk upsert (upsert_dob_permits)\<close>

text \<open>
  The \<open>stage\<close> CTE is read by every later step, so PostgreSQL materializes it: every
  cast of its select list is evaluated on every record, also \<open>permit_status_date\<close>,
  which no later step reads.  The model keeps the typed columns of \<open>stage\<close> in a record
  and reads its text columns, which are plain \<open>->>\<close> projections, from \<open>raw\<close>.
\<close>

record stage_row =
  stg_id :: "string option"
  stg_updated_at :: "timestamptz option"
  stg_permit_status_date :: "sqldate option"
  stg_expiration_date :: "sqldate option"
  stg_job_start_date :: "sqldate option"
  stg_gis_latitude :: "float8 option"
  stg_gis_longitude :: "float8 option"
  stg_raw :: jsonb

definition stage_of :: "postgres \<Rightarrow> jsonb \<Rightarrow> sql_error + stage_row" where
  "stage_of pg r =
     bind_err (cast_text (timestamptz_in pg) (json_text r '':updated_at'')) (\<lambda>upd.
     bind_err (cast_text (date_in pg) (json_text r ''permit_status_date'')) (\<lambda>psd.
     bind_err (cast_text (date_in pg) (json_text r ''expiration_date'')) (\<lambda>exd.
     bind_err (cast_text (date_in pg) (json_text r ''job_start_date'')) (\<lambda>jsd.
     bind_err (cast_text (float8_in pg) (json_text r ''gis_latitude'')) (\<lambda>lat.
     bind_err (cast_text (float8_in pg) (json_text r ''gis_longitude'')) (\<lambda>lon.
     Inr \<lparr>stg_id = json_text r '':id'', stg_updated_at = upd,
          stg_permit_status_date = psd, stg_expiration_date = exd,
          stg_job_start_date = jsd, stg_gis_latitude = lat, stg_gis_longitude = lon,
          stg_raw = r\<rparr>))))))"

definition stage :: "postgres \<Rightarrow> jsonb list \<Rightarrow> sql_error + stage_row list" where
  "stage pg rows = map_err (stage_of pg) rows"

text \<open>The text columns of \<open>stage\<close> that resolve a field through two candidate names.\<close>

definition stg_bin :: "stage_row \<Rightarrow> string option" where
  "stg_bin s = coalesce (json_text (stg_raw s) ''bin__'') (json_text (stg_raw s) ''bin'')"

definition stg_house_no :: "stage_row \<Rightarrow> string option" where
  "stg_house_no s = coalesce (json_text (stg_raw s) ''house__'') (json_text (stg_raw s) ''house_no'')"

definition stg_job_number :: "stage_row \<Rightarrow> string option" where
  "stg_job_number s = coalesce (json_text (stg_raw s) ''job__'') (json_text (stg_raw s) ''job_number'')"

definition stg_permit_number :: "stage_row \<Rightarrow> string option" where
  "stg_permit_number s =
     coalesce (json_text (stg_raw s) ''permit_si_no'') (json_text (stg_raw s) ''permit_number'')"

definition stg_permit_issuance_date_str :: "stage_row \<Rightarrow> string option" where
  "stg_permit_issuance_date_str s =
     coalesce (json_text (stg_raw s) ''issuance_date'') (json_text (stg_raw s) ''permit_issuance_date'')"

definition stg_zipcode :: "stage_row \<Rightarrow> string option" where
  "stg_zipcode s = coalesce (json_text (stg_raw s) ''zip_code'') (json_text (stg_raw s) ''zipcode'')"

definition stg_council_district :: "stage_row \<Rightarrow> string option" where
  "stg_council_district s =
     coalesce (json_text (stg_raw s) ''gis_council_district'') (json_text (stg_raw s) ''council_district'')"

definition stg_permit_sequence_no :: "stage_row \<Rightarrow> string option" where
  "stg_permit_sequence_no s =
     coalesce (json_text (stg_raw s) ''permit_sequence__'') (json_text (stg_raw s) ''permit_sequence_no'')"

definition stg_census_tract :: "stage_row \<Rightarrow> string option" where
  "stg_census_tract s =
     coalesce (json_text (stg_raw s) ''gis_census_tract'') (json_text (stg_raw s) ''census_tract'')"

subsection \<open>Step 1: buildings\<close>

definition building_of :: "stage_row \<Rightarrow> building option" where
  \<comment> \<open>the select list of \<open>buildings_upsert\<close> under \<open>where bin is not null\<close>\<close>
  "building_of s =
     (case stg_bin s of
        None \<Rightarrow> None
      | Some b \<Rightarrow> Some
          \<lparr>b_bin = b,
           b_block = json_text (stg_raw s) ''block'',
           b_lot = json_text (stg_raw s) ''lot'',
           b_borough = json_text (stg_raw s) ''borough'',
           b_street_name = json_text (stg_raw s) ''street_name'',
           b_house_no = stg_house_no s,
           b_zipcode = stg_zipcode s,
           b_census_tract = stg_census_tract s,
           b_nta_name = json_text (stg_raw s) ''nta_name''\<rparr>)"

definition buildings_upsert :: "stage_row list \<Rightarrow> building list \<Rightarrow> building list" where
  "buildings_upsert st tbl =
     foldl (\<lambda>t r. upsert_by b_bin r t) tbl (distinct_on b_bin (List.map_filter building_of st))"

subsection \<open>Step 2: permit details\<close>

definition permit_detail_of :: "postgres \<Rightarrow> stage_row \<Rightarrow> sql_error + permit_detail option" where
  \<comment> \<open>the select list of \<open>permit_details_upsert\<close> under \<open>where permit_number is not null\<close>:
      a record without a permit number is filtered out before its filing date is cast\<close>
  "permit_detail_of pg s =
     (case stg_permit_number s of
        None \<Rightarrow> Inr None
      | Some n \<Rightarrow>
          bind_err (cast_nonempty (timestamptz_in pg) (json_text (stg_raw s) ''filing_date'')) (\<lambda>fd.
          Inr (Some
            \<lparr>d_permit_number = n,
             d_job_number = stg_job_number s,
             d_permit_sequence_no = stg_permit_sequence_no s,
             d_permit_subtype = json_text (stg_raw s) ''permit_subtype'',
             d_filing_status = json_text (stg_raw s) ''filing_status'',
             d_filing_date = fd,
             d_site_fill = json_text (stg_raw s) ''site_fill'',
             d_oil_gas = json_text (stg_raw s) ''oil_gas'',
             d_self_cert = json_text (stg_raw s) ''self_cert'',
             d_special_district_1 = json_text (stg_raw s) ''special_district_1'',
             d_special_district_2 = json_text (stg_raw s) ''special_district_2''\<rparr>)))"

definition permit_details_upsert ::
  "postgres \<Rightarrow> stage_row list \<Rightarrow> permit_detail list \<Rightarrow> sql_error + permit_detail list" where
  "permit_details_upsert pg st tbl =
     bind_err (map_err (permit_detail_of pg) st) (\<lambda>ds.
     Inr (foldl (\<lambda>t r. upsert_by d_permit_number r t) tbl
            (distinct_on d_permit_number (List.map_filter (\<lambda>d. d) ds))))"

subsection \<open>Step 3: entities\<close>

definition coalesce_text :: "string option \<Rightarrow> string" where
  \<comment> \<open>\<open>coalesce(v, '')\<close>\<close>
  "coalesce_text v = (case v of None \<Rightarrow> [] | Some s \<Rightarrow> s)"

definition owner_present :: "stage_row \<Rightarrow> bool" where
  "owner_present s =
     (nonblank (json_text (stg_raw s) ''owner_s_business_name'')
      \<or> nonblank (json_text (stg_raw s) ''owner_s_first_name'')
      \<or> nonblank (json_text (stg_raw s) ''owner_s_last_name''))"

definition owner_entity :: "stage_row \<Rightarrow> entity_cols" where
  "owner_entity s =
     \<lparr>e_entity_type = ''owner'',
      e_full_name = Some (trim (coalesce_text (json_text (stg_raw s) ''owner_s_first_name'')
                                @ '' '' @ coalesce_text (json_text (stg_raw s) ''owner_s_last_name''))),
      e_business_name = nullif_trim (json_text (stg_raw s) ''owner_s_business_name''),
      e_license_type = json_text (stg_raw s) ''owner_s_license_type'',
      e_license_number = json_text (stg_raw s) ''owner_s_license_number'',
      e_phone = json_text (stg_raw s) ''owner_s_phone'',
      e_address = json_text (stg_raw s) ''owner_s_address'',
      e_city = json_text (stg_raw s) ''owner_s_city'',
      e_state = json_text (stg_raw s) ''owner_s_state'',
      e_zip = json_text (stg_raw s) ''owner_s_zip''\<rparr>"

definition permittee_present :: "stage_row \<Rightarrow> bool" where
  "permittee_present s =
     (nonblank (json_text (stg_raw s) ''permittee_s_business_name'')
      \<or> nonblank (json_text (stg_raw s) ''permittee_s_first_name'')
      \<or> nonblank (json_text (stg_raw s) ''permittee_s_last_name''))"

definition permittee_entity :: "stage_row \<Rightarrow> entity_cols" where
  "permittee_entity s =
     \<lparr>e_entity_type = ''permittee'',
      e_full_name = Some (trim (coalesce_text (json_text (stg_raw s) ''permittee_s_first_name'')
                                @ '' '' @ coalesce_text (json_text (stg_raw s) ''permittee_s_last_name''))),
      e_business_name = nullif_trim (json_text (stg_raw s) ''permittee_s_business_name''),
      e_license_type = json_text (stg_raw s) ''permittee_s_license_type'',
      e_license_number = json_text (stg_raw s) ''permittee_s_license_number'',
      e_phone = json_text (stg_raw s) ''permittee_s_phone'',
      e_address = json_text (stg_raw s) ''permittee_s_address'',
      e_city = json_text (stg_raw s) ''permittee_s_city'',
      e_state = json_text (stg_raw s) ''permittee_s_state'',
      e_zip = json_text (stg_raw s) ''permittee_s_zip''\<rparr>"

definition entity_candidates :: "stage_row list \<Rightarrow> entity_cols list" where
  \<comment> \<open>the subquery \<open>entities\<close> (owners \<open>union all\<close> permittees) under the outer \<open>where\<close>\<close>
  "entity_candidates st =
     filter (\<lambda>c. e_business_name c \<noteq> None \<or> nonblank (e_full_name c))
       (map owner_entity (filter owner_present st)
        @ map permittee_entity (filter permittee_present st))"

definition nulls_last :: "string option \<Rightarrow> bool \<times> string" where
  \<comment> \<open>the sort key of a text column in ascending order with NULLs last; text is compared
      byte-wise (the C collation)\<close>
  "nulls_last v = (case v of None \<Rightarrow> (True, []) | Some s \<Rightarrow> (False, s))"

definition entity_order :: "entity_cols \<Rightarrow> string \<times> (bool \<times> string) \<times> (bool \<times> string)" where
  \<comment> \<open>\<open>order by entity_type, business_name nulls last, full_name\<close>\<close>
  "entity_order c = (e_entity_type c, nulls_last (e_business_name c), nulls_last (e_full_name c))"

definition entity_key :: "'a entity_cols_scheme \<Rightarrow> string \<times> string option" where
  "entity_key c = (e_entity_type c, e_business_name c)"

definition entity_rows :: "stage_row list \<Rightarrow> entity_cols list" where
  \<comment> \<open>\<open>select distinct on (entity_type, business_name) ... order by ...\<close>\<close>
  "entity_rows st = distinct_on entity_key (sort_key entity_order (entity_candidates st))"

definition entity_conflict :: "entity_cols \<Rightarrow> entity \<Rightarrow> bool" where
  \<comment> \<open>the arbiter: the unique index on \<open>(entity_type, business_name) where business_name
      is not null\<close>\<close>
  "entity_conflict c x = (e_business_name c \<noteq> None \<and> entity_key x = entity_key c)"

definition entity_set_excluded :: "entity_cols \<Rightarrow> entity \<Rightarrow> entity" where
  \<comment> \<open>\<open>do update set full_name = excluded.full_name, ...\<close>\<close>
  "entity_set_excluded c x =
     x\<lparr>e_full_name := e_full_name c,
       e_license_type := e_license_type c,
       e_license_number := e_license_number c,
       e_phone := e_phone c,
       e_address := e_address c,
       e_city := e_city c,
       e_state := e_state c,
       e_zip := e_zip c\<rparr>"

definition entity_new :: "entity_cols \<Rightarrow> nat \<Rightarrow> entity" where
  "entity_new c n =
     \<lparr>e_entity_type = e_entity_type c,
      e_full_name = e_full_name c,
      e_business_name = e_business_name c,
      e_license_type = e_license_type c,
      e_license_number = e_license_number c,
      e_phone = e_phone c,
      e_address = e_address c,
      e_city = e_city c,
      e_state = e_state c,
      e_zip = e_zip c,
      e_entity_id = n\<rparr>"

definition entity_upsert_row :: "entity_cols \<Rightarrow> entity list \<Rightarrow> entity list" where
  "entity_upsert_row c tbl =
     (if list_ex (entity_conflict c) tbl
      then map (\<lambda>x. if entity_conflict c x then entity_set_excluded c x else x) tbl
      else tbl @ [entity_new c (length tbl)])"

definition entities_upsert :: "stage_row list \<Rightarrow> entity list \<Rightarrow> entity list" where
  "entities_upsert st tbl = foldl (\<lambda>t c. entity_upsert_row c t) tbl (entity_rows st)"

subsection \<open>Step 4: permits\<close>

definition permit_of :: "postgres \<Rightarrow> stage_row \<Rightarrow> sql_error + permit" where
  \<comment> \<open>the select list of \<open>permits_upsert\<close>; \<open>id\<close> is the primary key and \<open>updated_at\<close> is
      \<open>not null\<close>; the two geometry columns are not in the column list and belong to
      the trigger\<close>
  "permit_of pg s =
     bind_err (cast_nonempty (timestamptz_in pg) (stg_permit_issuance_date_str s)) (\<lambda>iss.
     bind_err (cast_nonempty (timestamptz_in pg) (json_text (stg_raw s) ''dobrundate'')) (\<lambda>drd.
     (case (stg_id s, stg_updated_at s) of
        (Some i, Some u) \<Rightarrow> Inr
          \<lparr>p_id = i,
           p_updated_at = u,
           p_borough = json_text (stg_raw s) ''borough'',
           p_bin = stg_bin s,
           p_gis_latitude = stg_gis_latitude s,
           p_gis_longitude = stg_gis_longitude s,
           p_community_board = json_text (stg_raw s) ''community_board'',
           p_council_district = stg_council_district s,
           p_nta_name = json_text (stg_raw s) ''nta_name'',
           p_zipcode = stg_zipcode s,
           p_permit_issuance_date = iss,
           p_expiration_date = map_option (date_to_timestamptz pg) (stg_expiration_date s),
           p_job_start_date = map_option (date_to_timestamptz pg) (stg_job_start_date s),
           p_permit_status = json_text (stg_raw s) ''permit_status'',
           p_permit_type = json_text (stg_raw s) ''permit_type'',
           p_work_type = json_text (stg_raw s) ''work_type'',
           p_job_type = json_text (stg_raw s) ''job_type'',
           p_bldg_type = json_text (stg_raw s) ''bldg_type'',
           p_residential = json_text (stg_raw s) ''residential'',
           p_dobrundate = drd,
           p_permit_number = stg_permit_number s,
           p_raw = stg_raw s,
           p_geom = None,
           p_geom_4326 = None\<rparr>
      | _ \<Rightarrow> Inl NotNullViolation)))"

definition permit_exists :: "permit list \<Rightarrow> permit \<Rightarrow> bool" where
  "permit_exists tbl r = (p_id r \<in> set (map p_id tbl))"

definition permits_upsert ::
  "postgres \<Rightarrow> stage_row list \<Rightarrow> permit list \<Rightarrow> sql_error + (permit list \<times> nat \<times> nat)" where
  \<comment> \<open>two proposed rows with one id: "ON CONFLICT DO UPDATE command cannot affect row a
      second time".  The two counts are the sums of \<open>(xmax = 0)\<close> and \<open>(xmax <> 0)\<close>: a
      row is counted as updated exactly when its id was in the table before\<close>
  "permits_upsert pg st tbl =
     bind_err (map_err (permit_of pg) st) (\<lambda>rows.
     if \<not> distinct (map p_id rows) then Inl CardinalityViolation
     else Inr (foldl (\<lambda>t r. upsert_by p_id (populate_geom_from_coords r) t) tbl rows,
               length (filter (\<lambda>r. \<not> permit_exists tbl r) rows),
               length (filter (permit_exists tbl) rows)))"

subsection \<open>The function\<close>

record upsert_result =
  inserted :: nat
  updated :: nat
  max_updated :: "timestamptz option"

fun sql_max :: "timestamptz option list \<Rightarrow> timestamptz option" where
  \<comment> \<open>the aggregate \<open>max\<close>: NULLs are skipped, no value gives NULL\<close>
  "sql_max [] = None"
| "sql_max (None # vs) = sql_max vs"
| "sql_max (Some v # vs) = (case sql_max vs of None \<Rightarrow> Some v | Some m \<Rightarrow> Some (max v m))"

definition upsert_dob_permits ::
  "postgres \<Rightarrow> jsonb list \<Rightarrow> store \<Rightarrow> sql_error + (upsert_result \<times> store)" where
  \<comment> \<open>one statement in one transaction: an error of any step leaves the store as it was\<close>
  "upsert_dob_permits pg rows s =
     bind_err (stage pg rows) (\<lambda>st.
     bind_err (permit_details_upsert pg st (dob_permit_details s)) (\<lambda>details.
     bind_err (permits_upsert pg st (dob_permits s)) (\<lambda>(permits, v_ins, v_upd).
     Inr (\<lparr>inserted = v_ins, updated = v_upd, max_updated = sql_max (map stg_updated_at st)\<rparr>,
          s\<lparr>dob_buildings := buildings_upsert st (dob_buildings s),
            dob_permit_details := details,
            dob_entities := entities_upsert st (dob_entities s),
            dob_permits := permits\<rparr>))))"

definition current_dob_watermark :: "store \<Rightarrow> timestamptz" where
  \<comment> \<open>\<open>select coalesce(max(updated_at), '1970-01-01'::timestamptz) from dob_permits\<close>;
      the epoch is instant 0\<close>
  "current_dob_watermark s =
     (case sql_max (map (\<lambda>p. Some (p_updated_at p)) (dob_permits s)) of None \<Rightarrow> 0 | Some m \<Rightarrow> m)"

section \<open>The tile generator (dob_permit_tiles)\<close>

text \<open>
  PostGIS is a parameter of the model, like PostgreSQL's casts: the tile envelope, the
  two reprojections, the bounding-box operator \<open>&&\<close>, the MVT geometry and the MVT
  encoder.  \<open>'env\<close> is the type of a tile envelope, \<open>'g\<close> the type of a geometry in tile
  coordinates.
\<close>

record 'g mvt_row =
  m_id :: string
  m_permit_type :: "string option"
  m_permit_status :: "string option"
  m_permit_issuance_date :: "timestamptz option"
  m_borough :: "string option"
  m_geom :: 'g

record ('env, 'g) postgis =
  ST_TileEnvelope :: "int \<Rightarrow> int \<Rightarrow> int \<Rightarrow> 'env"
  ST_Transform_4326 :: "'env \<Rightarrow> 'env"
  ST_Transform_3857 :: "point \<Rightarrow> point"
  bbox_overlaps :: "point \<Rightarrow> 'env \<Rightarrow> bool"
  ST_Intersects :: "point \<Rightarrow> 'env \<Rightarrow> bool"
  ST_SnapToGrid :: "point \<Rightarrow> real \<Rightarrow> point"
  ST_AsMVTGeom :: "point \<Rightarrow> 'env \<Rightarrow> int \<Rightarrow> int \<Rightarrow> bool \<Rightarrow> 'g"
  ST_AsMVT :: "'g mvt_row list \<Rightarrow> string \<Rightarrow> int \<Rightarrow> string \<Rightarrow> bytea option"

definition date_matches :: "postgres \<Rightarrow> sqldate option \<Rightarrow> permit \<Rightarrow> bool" where
  \<comment> \<open>\<open>date is null or (p.permit_issuance_date is not null and
      p.permit_issuance_date::date = date::date)\<close>\<close>
  "date_matches pg d p =
     (case d of
        None \<Rightarrow> True
      | Some day \<Rightarrow>
          (case p_permit_issuance_date p of
             None \<Rightarrow> False
           | Some t \<Rightarrow> timestamptz_to_date pg t = day))"

definition tile_src ::
  "postgres \<Rightarrow> ('env, 'g) postgis \<Rightarrow> int \<Rightarrow> int \<Rightarrow> int \<Rightarrow> sqldate option \<Rightarrow> permit list
     \<Rightarrow> (permit \<times> point) list" where
  \<comment> \<open>the CTE \<open>src\<close>: the selected rows, each with \<open>g3857\<close>\<close>
  "tile_src pg gis z x y d permits =
     List.map_filter
       (\<lambda>p. case p_geom_4326 p of
               None \<Rightarrow> None
             | Some g \<Rightarrow>
                 if date_matches pg d p
                    \<and> bbox_overlaps gis g (ST_Transform_4326 gis (ST_TileEnvelope gis z x y))
                 then Some (p, ST_Transform_3857 gis g)
                 else None)
       permits"

definition mvtgeom ::
  "('env, 'g) postgis \<Rightarrow> int \<Rightarrow> int \<Rightarrow> int \<Rightarrow> (permit \<times> point) list \<Rightarrow> 'g mvt_row list" where
  \<comment> \<open>the CTE \<open>mvtgeom\<close>, with the zoom bands of the grid snapping\<close>
  "mvtgeom gis z x y src =
     map (\<lambda>(p, g3857).
            \<lparr>m_id = p_id p,
             m_permit_type = p_permit_type p,
             m_permit_status = p_permit_status p,
             m_permit_issuance_date = p_permit_issuance_date p,
             m_borough = p_borough p,
             m_geom = ST_AsMVTGeom gis
               (if z \<le> 6 then ST_SnapToGrid gis g3857 64
                else if z \<le> 10 then ST_SnapToGrid gis g3857 8
                else g3857)
               (ST_TileEnvelope gis z x y) 4096 256 True\<rparr>)
       (filter (\<lambda>(p, g3857). bbox_overlaps gis g3857 (ST_TileEnvelope gis z x y)
                             \<and> ST_Intersects gis g3857 (ST_TileEnvelope gis z x y))
          src)"

definition dob_permit_tiles ::
  "postgres \<Rightarrow> ('env, 'g) postgis \<Rightarrow> int \<Rightarrow> int \<Rightarrow> int \<Rightarrow> string option \<Rightarrow> store
     \<Rightarrow> sql_error + bytea" where
  \<comment> \<open>\<open>language sql stable\<close>, one \<open>select\<close>: the function reads \<open>dob_permits\<close> and returns
      bytes; \<open>coalesce(ST_AsMVT(...), '\x'::bytea)\<close> turns NULL into the empty bytea.  The
      query has no \<open>order by\<close>: the rows reach \<open>ST_AsMVT\<close> in the order of the scan, the
      order of the list; the casts to \<open>date\<close> are those of the session \<open>pg\<close>\<close>
  "dob_permit_tiles pg gis z x y date s =
     bind_err (cast_text (date_in pg) date) (\<lambda>d.
     Inr (case ST_AsMVT gis (mvtgeom gis z x y (tile_src pg gis z x y d (dob_permits s)))
                 ''permits'' 4096 ''geom'' of
            None \<Rightarrow> []
          | Some b \<Rightarrow> b))"

section \<open>The edge functions' environment\<close>

text \<open>
  Both edge functions talk to the store through the Supabase client and, for the sync,
  to Socrata through \<open>fetch\<close>.  A \<open>world\<close> is the store together with what the outside
  does to the calls: \<open>supabase_faults\<close> has one flag for each Supabase call to come
  (\<open>True\<close>: the call returns an error and has no effect), \<open>fetch_script\<close> one entry for
  each \<open>fetch\<close> to come (\<open>None\<close>: Socrata answers the query from the dataset \<open>socrata\<close>,
  which does not change during a run; \<open>Some o\<close>: the outcome is \<open>o\<close>); a list that has
  run out means no fault.  \<open>trace\<close> records the calls made, in
  order, so that "before any cache lookup" and "applied by one upsert call" are
  statements about a value.  Time stamps travel through TypeScript as ISO-8601 text
  and are compared there as text; the model keeps them as instants, which is the same
  order for the UTC rendering that PostgREST and Socrata produce.
\<close>

datatype json_body = BodyRecords "jsonb list" | BodyNotArray | BodyInvalid

datatype fetch_outcome = FetchThrows | FetchResponse nat json_body

record soql =
  q_where_gt :: timestamptz
  q_where_le :: "timestamptz option"
  q_limit :: nat
  q_offset :: nat

type_synonym cache_key = "string \<times> int \<times> int \<times> int \<times> string \<times> string"

datatype event =
    ReadWatermark
  | Preflight timestamptz
  | PageRequest soql
  | UpsertPage "jsonb list"
  | WriteSyncState timestamptz
  | CacheLookup cache_key
  | TileRpc int int int "string option"
  | CacheWrite cache_key string

record world =
  db :: store
  socrata :: "jsonb list"
  supabase_faults :: "bool list"
  fetch_script :: "fetch_outcome option list"
  trace :: "event list"

record deno =
  SUPABASE_URL :: "string option"
  SUPABASE_SERVICE_ROLE_KEY :: "string option"
  now :: timestamptz
  now_iso_date :: string
  js_date_valid :: "string \<Rightarrow> bool"

definition falsy :: "string option \<Rightarrow> bool" where
  \<comment> \<open>\<open>!v\<close> for a value that is a string, null or undefined\<close>
  "falsy v = (case v of None \<Rightarrow> True | Some s \<Rightarrow> s = [])"

definition log_event :: "event \<Rightarrow> world \<Rightarrow> world" where
  "log_event e w = w\<lparr>trace := trace w @ [e]\<rparr>"

definition pop_fault :: "world \<Rightarrow> bool \<times> world" where
  "pop_fault w =
     (case supabase_faults w of
        [] \<Rightarrow> (False, w)
      | f # fs \<Rightarrow> (f, w\<lparr>supabase_faults := fs\<rparr>))"

section \<open>The tile request handler (functions/tiles/index.ts)\<close>

definition backslash :: char where
  "backslash = CHR 0x5C"

definition hex_digit :: "nat \<Rightarrow> char" where
  "hex_digit n = ''0123456789abcdef'' ! (n mod 16)"

definition bytea_out :: "bytea \<Rightarrow> string" where
  \<comment> \<open>PostgREST sends a \<open>bytea\<close> in PostgreSQL's hex format: backslash, x, two digits a byte\<close>
  "bytea_out b =
     [backslash, CHR ''x''] @ concat (map (\<lambda>w. [hex_digit (unat w div 16), hex_digit (unat w mod 16)]) b)"

definition hex_val :: "char \<Rightarrow> nat option" where
  "hex_val c =
     (let n = (of_char c :: nat) in
      if 48 \<le> n \<and> n \<le> 57 then Some (n - 48)
      else if 97 \<le> n \<and> n \<le> 102 then Some (n - 87)
      else if 65 \<le> n \<and> n \<le> 70 then Some (n - 55)
      else None)"

definition hex_value :: "string \<Rightarrow> nat" where
  "hex_value ds = foldl (\<lambda>a c. 16 * a + (case hex_val c of None \<Rightarrow> 0 | Some d \<Rightarrow> d)) 0 ds"

definition js_whitespace :: "char \<Rightarrow> bool" where
  "js_whitespace c = ((of_char c :: nat) \<in> {9, 10, 11, 12, 13, 32})"

definition parseInt16 :: "string \<Rightarrow> int option" where
  \<comment> \<open>\<open>parseInt(s, 16)\<close>: blanks, an optional sign, an optional \<open>0x\<close>, then the longest
      run of hexadecimal digits; what follows them is ignored; \<open>None\<close> is NaN\<close>
  "parseInt16 s =
     (let t = dropWhile js_whitespace s;
          neg = (t \<noteq> [] \<and> hd t = CHR ''-'');
          u = (if t \<noteq> [] \<and> (hd t = CHR ''-'' \<or> hd t = CHR ''+'') then tl t else t);
          v = (if take 2 u = ''0x'' \<or> take 2 u = ''0X'' then drop 2 u else u);
          ds = takeWhile (\<lambda>c. hex_val c \<noteq> None) v
      in if ds = [] then None
         else Some (if neg then - int (hex_value ds) else int (hex_value ds)))"

definition to_uint8 :: "int option \<Rightarrow> 8 word" where
  \<comment> \<open>storing a number into a \<open>Uint8Array\<close>: NaN is stored as 0, an integer modulo 256\<close>
  "to_uint8 v = (case v of None \<Rightarrow> 0 | Some n \<Rightarrow> word_of_int n)"

fun hex_pairs :: "string \<Rightarrow> bytea" where
  \<comment> \<open>the loop over \<open>hexString.substr(i, 2)\<close>.  The array has \<open>length / 2\<close> elements,
      rounded down when the length is odd; the last write of an odd length is then past
      the end of the array and has no effect\<close>
  "hex_pairs [] = []"
| "hex_pairs [a] = []"
| "hex_pairs (a # b # r) = to_uint8 (parseInt16 [a, b]) # hex_pairs r"

definition hexToArrayBuffer :: "string \<Rightarrow> bytea" where
  "hexToArrayBuffer hex =
     hex_pairs (if take 2 hex = [backslash, CHR ''x''] then drop 2 hex else hex)"

definition fnv_step :: "int \<Rightarrow> 8 word \<Rightarrow> int" where
  \<comment> \<open>\<open>hash ^= byte\<close> leaves a signed 32-bit value; the shifts are signed 32-bit too, and
      their sum is added as a number, without wrapping\<close>
  "fnv_step hash byte =
     (let h = (word_of_int hash :: 32 word) XOR ucast byte in
      sint h + (sint (push_bit 1 h) + sint (push_bit 4 h) + sint (push_bit 7 h)
                + sint (push_bit 8 h) + sint (push_bit 24 h)))"

function hex_of_nat :: "nat \<Rightarrow> string" where
  "hex_of_nat n = (if n < 16 then [hex_digit n] else hex_of_nat (n div 16) @ [hex_digit n])"
  by pat_completeness auto
termination
  by (relation "measure id") auto

definition generateETag :: "bytea \<Rightarrow> string" where
  \<comment> \<open>\<open>hash.toString(16)\<close>\<close>
  "generateETag data =
     (let hash = foldl fnv_step 2166136261 data in
      if hash < 0 then CHR ''-'' # hex_of_nat (nat (- hash)) else hex_of_nat (nat hash))"

definition is_digit :: "char \<Rightarrow> bool" where
  "is_digit c = (48 \<le> (of_char c :: nat) \<and> (of_char c :: nat) \<le> 57)"

definition decimal_value :: "string \<Rightarrow> nat" where
  "decimal_value ds = foldl (\<lambda>a c. 10 * a + (of_char c - 48)) 0 ds"

definition parseInt10 :: "string \<Rightarrow> int option" where
  \<comment> \<open>\<open>parseInt(s, 10)\<close>: blanks, an optional sign, then the longest run of digits; what
      follows the digits is ignored; \<open>None\<close> is NaN.  The value is the exact integer (a
      double rounds beyond 2^53, which no comparison below can see)\<close>
  "parseInt10 s =
     (let t = dropWhile js_whitespace s;
          neg = (t \<noteq> [] \<and> hd t = CHR ''-'');
          u = (if t \<noteq> [] \<and> (hd t = CHR ''-'' \<or> hd t = CHR ''+'') then tl t else t);
          ds = takeWhile is_digit u
      in if ds = [] then None
         else Some (if neg then - int (decimal_value ds) else int (decimal_value ds)))"

fun split_on :: "char \<Rightarrow> string \<Rightarrow> string list" where
  "split_on c [] = [[]]"
| "split_on c (x # xs) =
     (if x = c then [] # split_on c xs
      else (case split_on c xs of [] \<Rightarrow> [[x]] | h # t \<Rightarrow> (x # h) # t))"

definition path_parts :: "string \<Rightarrow> string list" where
  \<comment> \<open>\<open>url.pathname.split('/').filter(Boolean)\<close>\<close>
  "path_parts pathname = filter (\<lambda>p. p \<noteq> []) (split_on CHR ''/'' pathname)"

fun index_of :: "'a \<Rightarrow> 'a list \<Rightarrow> nat option" where
  \<comment> \<open>\<open>indexOf\<close>; \<open>None\<close> is -1\<close>
  "index_of a [] = None"
| "index_of a (x # xs) = (if x = a then Some 0 else map_option Suc (index_of a xs))"

definition date_regex :: "string \<Rightarrow> bool" where
  \<comment> \<open>\<open>/^\d{4}-\d{2}-\d{2}$/\<close>\<close>
  "date_regex s =
     (case s of
        [y1, y2, y3, y4, h1, m1, m2, h2, d1, d2] \<Rightarrow>
          is_digit y1 \<and> is_digit y2 \<and> is_digit y3 \<and> is_digit y4 \<and> h1 = CHR ''-''
          \<and> is_digit m1 \<and> is_digit m2 \<and> h2 = CHR ''-'' \<and> is_digit d1 \<and> is_digit d2
      | _ \<Rightarrow> False)"

datatype handler_error =
    MissingEnvironment
  | TileRpcError

datatype resp_body =
    NoBody
  | TextBody string
  | TileBody bytea
  | ErrorBody handler_error

text \<open>Of the headers, the model keeps the content type, the cache directive and the ETag.\<close>

record http_response =
  status :: nat
  headers :: "(string \<times> string) list"
  body :: resp_body

record tile_request =
  req_method :: string
  req_pathname :: string
  req_date :: "string option"
  req_if_none_match :: "string option"

definition cache_control :: "string \<times> string" where
  "cache_control =
     (''Cache-Control'', ''public, max-age=3600, s-maxage=86400, stale-while-revalidate=604800'')"

definition mvt_content_type :: "string \<times> string" where
  "mvt_content_type = (''Content-Type'', ''application/vnd.mapbox-vector-tile'')"

definition bad_request :: "string \<Rightarrow> http_response" where
  "bad_request msg = \<lparr>status = 400, headers = [], body = TextBody msg\<rparr>"

definition server_error :: "handler_error \<Rightarrow> http_response" where
  \<comment> \<open>the \<open>catch\<close> of the handler\<close>
  "server_error e =
     \<lparr>status = 500, headers = [(''Content-Type'', ''application/json'')], body = ErrorBody e\<rparr>"

definition empty_tile :: http_response where
  "empty_tile = \<lparr>status = 200, headers = [mvt_content_type, cache_control], body = TileBody []\<rparr>"

definition cache_key_of :: "mvt_cache_row \<Rightarrow> cache_key" where
  "cache_key_of r = (c_layer r, c_z r, c_x r, c_y r, c_since r, c_until r)"

definition cache_single :: "cache_key \<Rightarrow> store \<Rightarrow> mvt_cache_row option" where
  \<comment> \<open>\<open>.select(...).eq(...)....single()\<close>: an error unless exactly one row matches\<close>
  "cache_single k s =
     (case filter (\<lambda>r. cache_key_of r = k) (mvt_cache s) of [r] \<Rightarrow> Some r | _ \<Rightarrow> None)"

definition cache_lookup :: "cache_key \<Rightarrow> world \<Rightarrow> string option \<times> world" where
  \<comment> \<open>a hit is \<open>!cacheError && cacheData && cacheData.mvt\<close>\<close>
  "cache_lookup k w =
     (case pop_fault (log_event (CacheLookup k) w) of
        (True, w') \<Rightarrow> (None, w')
      | (False, w') \<Rightarrow>
          (case cache_single k (db w') of
             None \<Rightarrow> (None, w')
           | Some r \<Rightarrow> (if c_mvt r = [] then None else Some (c_mvt r), w')))"

definition cache_write :: "deno \<Rightarrow> cache_key \<Rightarrow> string \<Rightarrow> world \<Rightarrow> world" where
  \<comment> \<open>\<open>.upsert({...})\<close>, not awaited; a failure is logged and dropped\<close>
  "cache_write env k mvt w =
     (case pop_fault (log_event (CacheWrite k mvt) w) of
        (True, w') \<Rightarrow> w'
      | (False, w') \<Rightarrow>
          (case k of (layer, z, x, y, since, until) \<Rightarrow>
             w'\<lparr>db := (db w')\<lparr>mvt_cache :=
                   upsert_by cache_key_of
                     \<lparr>c_layer = layer, c_z = z, c_x = x, c_y = y, c_since = since,
                      c_until = until, c_mvt = mvt, c_updated_at = now env\<rparr>
                     (mvt_cache (db w'))\<rparr>\<rparr>))"

datatype js_value = JNull | JString string | JBuffer bytea

definition tile_rpc ::
  "postgres \<Rightarrow> ('env, 'g) postgis \<Rightarrow> int \<Rightarrow> int \<Rightarrow> int \<Rightarrow> string \<Rightarrow> world
     \<Rightarrow> (handler_error + js_value) \<times> world" where
  \<comment> \<open>\<open>supabase.rpc('dob_permit_tiles', {z, x, y, date: dateStr})\<close>: the call reads the
      store and leaves it as it is; the bytes arrive as hex text\<close>
  "tile_rpc pg gis z x y dateStr w =
     (case pop_fault (log_event (TileRpc z x y (Some dateStr)) w) of
        (True, w') \<Rightarrow> (Inl TileRpcError, w')
      | (False, w') \<Rightarrow>
          (case dob_permit_tiles pg gis z x y (Some dateStr) (db w') of
             Inl e \<Rightarrow> (Inl TileRpcError, w')
           | Inr bytes \<Rightarrow> (Inr (JString (bytea_out bytes)), w')))"

definition rpc_data_empty :: "js_value \<Rightarrow> bool" where
  \<comment> \<open>\<open>!data || (typeof data === 'string' && (data === '\\x' || data.length === 0)) ||
      (data instanceof ArrayBuffer && data.byteLength === 0)\<close>\<close>
  "rpc_data_empty data =
     (case data of
        JNull \<Rightarrow> True
      | JString t \<Rightarrow> t = [] \<or> t = [backslash, CHR ''x'']
      | JBuffer b \<Rightarrow> b = [])"

definition respond_tile :: "tile_request \<Rightarrow> bytea \<Rightarrow> http_response" where
  \<comment> \<open>from \<open>if (!tileData || tileData.byteLength === 0)\<close> to the end of the \<open>try\<close>\<close>
  "respond_tile req tileData =
     (if tileData = [] then empty_tile
      else
        (let etagHeader = ''\"'' @ generateETag tileData @ ''\"'' in
         if req_if_none_match req = Some etagHeader
         then \<lparr>status = 304, headers = [(''ETag'', etagHeader), cache_control], body = NoBody\<rparr>
         else \<lparr>status = 200, headers = [mvt_content_type, cache_control, (''ETag'', etagHeader)],
               body = TileBody tileData\<rparr>))"

definition serve_tile ::
  "deno \<Rightarrow> postgres \<Rightarrow> ('env, 'g) postgis \<Rightarrow> tile_request \<Rightarrow> int \<Rightarrow> int \<Rightarrow> int \<Rightarrow> string
     \<Rightarrow> world \<Rightarrow> http_response \<times> world" where
  \<comment> \<open>from "Try cache first" on: the coordinates and the date have been validated\<close>
  "serve_tile env pg gis req z x y dateStr w =
     (let k = (''permits'', z, x, y, dateStr, dateStr) in
      case cache_lookup k w of
        (Some mvt, w1) \<Rightarrow> (respond_tile req (hexToArrayBuffer mvt), w1)
      | (None, w1) \<Rightarrow>
          (case tile_rpc pg gis z x y dateStr w1 of
             (Inl e, w2) \<Rightarrow> (server_error e, w2)
           | (Inr data, w2) \<Rightarrow>
               if rpc_data_empty data then (empty_tile, w2)
               else
                 (case data of
                    JString t \<Rightarrow> (respond_tile req (hexToArrayBuffer t), cache_write env k t w2)
                  | JBuffer b \<Rightarrow> (respond_tile req b, cache_write env k (bytea_out b) w2)
                  | JNull \<Rightarrow> (empty_tile, w2))))"

definition validate_request :: "deno \<Rightarrow> tile_request \<Rightarrow> http_response + (int \<times> int \<times> int \<times> string)" where
  \<comment> \<open>the handler up to "Try cache first": \<open>Inl\<close> is a response returned (or an error
      thrown and caught) before any call to the store, \<open>Inr\<close> the validated \<open>z\<close>, \<open>x\<close>, \<open>y\<close>
      and \<open>dateStr\<close>\<close>
  "validate_request env req =
     (if req_method req = ''OPTIONS'' then Inl \<lparr>status = 200, headers = [], body = NoBody\<rparr>
      else if falsy (SUPABASE_URL env) \<or> falsy (SUPABASE_SERVICE_ROLE_KEY env)
      then Inl (server_error MissingEnvironment)
      else
        (let pathParts = path_parts (req_pathname req) in
         case index_of ''tiles'' pathParts of
           None \<Rightarrow> Inl (bad_request ''Invalid path. Expected: /tiles/permits/{z}/{x}/{y}'')
         | Some tilesIndex \<Rightarrow>
             if length pathParts < tilesIndex + 5 \<or> pathParts ! (tilesIndex + 1) \<noteq> ''permits''
             then Inl (bad_request ''Invalid path. Expected: /tiles/permits/{z}/{x}/{y}'')
             else
               (case (parseInt10 (pathParts ! (tilesIndex + 2)),
                      parseInt10 (pathParts ! (tilesIndex + 3)),
                      parseInt10 (pathParts ! (tilesIndex + 4))) of
                  (Some z, Some x, Some y) \<Rightarrow>
                    if z < 0 \<or> z > 16
                    then Inl (bad_request ''Zoom level must be between 0 and 16'')
                    else if x < 0 \<or> x \<ge> 2 ^ nat z \<or> y < 0 \<or> y \<ge> 2 ^ nat z
                    then Inl (bad_request ''Tile coordinates out of range'')
                    else
                      (let dateStr = (if falsy (req_date req) then now_iso_date env
                                      else coalesce_text (req_date req)) in
                       if \<not> date_regex dateStr
                       then Inl (bad_request ''Invalid date format. Use YYYY-MM-DD'')
                       else if \<not> js_date_valid env (dateStr @ ''T00:00:00Z'')
                       then Inl (bad_request ''Invalid date format. Use YYYY-MM-DD'')
                       else Inr (z, x, y, dateStr))
                | _ \<Rightarrow> Inl (bad_request ''Invalid tile coordinates''))))"

definition tiles_handler ::
  "deno \<Rightarrow> postgres \<Rightarrow> ('env, 'g) postgis \<Rightarrow> tile_request \<Rightarrow> world \<Rightarrow> http_response \<times> world" where
  "tiles_handler env pg gis req w =
     (case validate_request env req of
        Inl response \<Rightarrow> (response, w)
      | Inr (z, x, y, dateStr) \<Rightarrow> serve_tile env pg gis req z x y dateStr w)"

section \<open>The ingestion engine (functions/dob-permits-sync/index.ts)\<close>

definition PAGE_SIZE :: nat where
  "PAGE_SIZE = 5000"

datatype sync_error =
    MissingEnv
  | WatermarkFetchFailed
  | FetchFailed
  | ResponseUndefined
  | JsonParseError
  | UpsertFailed
  | StateUpdateFailed

record sync_request =
  sq_mode :: "string option"
  sq_since :: "timestamptz option"
  sq_until :: "timestamptz option"

record sync_response =
  sr_status :: nat
  sr_success :: bool
  sr_mode :: string
  sr_totalProcessed :: nat
  sr_totalInserted :: nat
  sr_totalUpdated :: nat
  sr_lastSyncedUpdatedAt :: "timestamptz option"
  sr_error :: "sync_error option"

record loop_state =
  page :: nat
  totalProcessed :: nat
  totalInserted :: nat
  totalUpdated :: nat
  newestSeen :: timestamptz
  maxUpdatedAt :: "timestamptz option"

definition record_updated_at :: "postgres \<Rightarrow> jsonb \<Rightarrow> timestamptz option" where
  \<comment> \<open>the instant of a record's \<open>:updated_at\<close>, as the store will read it\<close>
  "record_updated_at pg r =
     (case json_text r '':updated_at'' of None \<Rightarrow> None | Some t \<Rightarrow> timestamptz_in pg t)"

definition soql_matches :: "postgres \<Rightarrow> soql \<Rightarrow> jsonb \<Rightarrow> bool" where
  \<comment> \<open>\<open>$where :updated_at > '...' [AND :updated_at <= '...']\<close>\<close>
  "soql_matches pg q r =
     (case record_updated_at pg r of
        None \<Rightarrow> False
      | Some t \<Rightarrow> q_where_gt q < t \<and> (case q_where_le q of None \<Rightarrow> True | Some u \<Rightarrow> t \<le> u))"

definition soql_rows :: "postgres \<Rightarrow> soql \<Rightarrow> jsonb list \<Rightarrow> jsonb list" where
  \<comment> \<open>Socrata's answer to \<open>$select=:*,* $order=:updated_at ASC $limit $offset $where\<close>;
      records with one \<open>:updated_at\<close> keep the order of the dataset\<close>
  "soql_rows pg q dataset =
     take (q_limit q) (drop (q_offset q)
       (sort_key (\<lambda>r. case record_updated_at pg r of None \<Rightarrow> 0 | Some t \<Rightarrow> t)
          (filter (soql_matches pg q) dataset)))"

definition fetch :: "json_body \<Rightarrow> world \<Rightarrow> fetch_outcome \<times> world" where
  \<comment> \<open>one \<open>fetch\<close>; the first argument is Socrata's answer to the request\<close>
  "fetch answer w =
     (case fetch_script w of
        [] \<Rightarrow> (FetchResponse 200 answer, w)
      | None # rest \<Rightarrow> (FetchResponse 200 answer, w\<lparr>fetch_script := rest\<rparr>)
      | Some out # rest \<Rightarrow> (out, w\<lparr>fetch_script := rest\<rparr>))"

definition response_ok :: "nat \<Rightarrow> bool" where
  "response_ok st = (200 \<le> st \<and> st \<le> 299)"

fun fetch_retry :: "nat \<Rightarrow> json_body \<Rightarrow> world \<Rightarrow> (sync_error + json_body) \<times> world" where
  \<comment> \<open>\<open>while (retries > 0)\<close>; the \<open>throw\<close> for a response that is not ok is inside the
      \<open>try\<close>, so its \<open>catch\<close> retries it too; the waiting is not modelled\<close>
  "fetch_retry 0 answer w = (Inl ResponseUndefined, w)"
| "fetch_retry (Suc retries) answer w =
     (case fetch answer w of
        (FetchThrows, w') \<Rightarrow>
          if Suc retries = 1 then (Inl FetchFailed, w') else fetch_retry retries answer w'
      | (FetchResponse st b, w') \<Rightarrow>
          if (st = 429 \<or> (500 \<le> st \<and> st < 600)) \<and> Suc retries > 1
          then fetch_retry retries answer w'
          else if \<not> response_ok st
          then (if Suc retries = 1 then (Inl FetchFailed, w') else fetch_retry retries answer w')
          else (Inr b, w'))"

definition upsert_rpc ::
  "postgres \<Rightarrow> jsonb list \<Rightarrow> world \<Rightarrow> (sync_error + upsert_result) \<times> world" where
  \<comment> \<open>\<open>supabase.rpc('upsert_dob_permits', {_rows: records})\<close>\<close>
  "upsert_rpc pg records w =
     (case pop_fault (log_event (UpsertPage records) w) of
        (True, w') \<Rightarrow> (Inl UpsertFailed, w')
      | (False, w') \<Rightarrow>
          (case upsert_dob_permits pg records (db w') of
             Inl e \<Rightarrow> (Inl UpsertFailed, w')
           | Inr (result, s') \<Rightarrow> (Inr result, w'\<lparr>db := s'\<rparr>)))"

definition advance :: "upsert_result \<Rightarrow> nat \<Rightarrow> loop_state \<Rightarrow> loop_state" where
  \<comment> \<open>the body of \<open>if (upsertResult && upsertResult.length > 0)\<close> and the count.
      \<open>result.max_updated > newestSeen\<close> compares two ISO texts; the model compares
      the instants, which is the same order when both texts are renderings of the store,
      or the epoch default and a stamp of a later year.  A \<open>since\<close> parameter is an instant here: a text in the
      rendering of the store; a \<open>since\<close> written otherwise (a \<open>Z\<close> suffix against a
      \<open>+00:00\<close>) is outside the model\<close>
  "advance result n st =
     (let st1 = st\<lparr>totalInserted := totalInserted st + inserted result,
                    totalUpdated := totalUpdated st + updated result\<rparr>;
          st2 = (case max_updated result of
                   None \<Rightarrow> st1
                 | Some m \<Rightarrow> if m > newestSeen st1
                             then st1\<lparr>newestSeen := m, maxUpdatedAt := Some m\<rparr> else st1)
      in st2\<lparr>totalProcessed := totalProcessed st2 + n\<rparr>)"

definition sync_page ::
  "postgres \<Rightarrow> nat \<Rightarrow> timestamptz option \<Rightarrow> loop_state \<Rightarrow> world
     \<Rightarrow> (sync_error + bool \<times> loop_state) \<times> world" where
  \<comment> \<open>one turn of \<open>while (true)\<close> with page size \<open>ps\<close>; \<open>Inr (True, st)\<close> goes round again,
      \<open>Inr (False, st)\<close> is a \<open>break\<close>\<close>
  "sync_page pg ps until st w =
     (let q = \<lparr>q_where_gt = newestSeen st, q_where_le = until, q_limit = ps,
               q_offset = page st * ps\<rparr> in
      case fetch_retry 3 (BodyRecords (soql_rows pg q (socrata w))) (log_event (PageRequest q) w) of
        (Inl e, w1) \<Rightarrow> (Inl e, w1)
      | (Inr BodyInvalid, w1) \<Rightarrow> (Inl JsonParseError, w1)
      | (Inr BodyNotArray, w1) \<Rightarrow> (Inr (False, st), w1)
      | (Inr (BodyRecords records), w1) \<Rightarrow>
          if records = [] then (Inr (False, st), w1)
          else
            (case upsert_rpc pg records w1 of
               (Inl e, w2) \<Rightarrow> (Inl e, w2)
             | (Inr result, w2) \<Rightarrow>
                 (let st' = advance result (length records) st in
                  if length records < ps then (Inr (False, st'), w2)
                  else (Inr (True, st'\<lparr>page := page st' + 1\<rparr>), w2))))"

text \<open>
  The loop ends: a turn that goes round again has either used up an entry of the fetch
  script or, with the script run out, received a full page from the dataset at the
  next offset, and the dataset is finite.
\<close>

lemma pop_fault_frame:
  "pop_fault w = (f, w') \<Longrightarrow>
     db w' = db w \<and> socrata w' = socrata w \<and> fetch_script w' = fetch_script w \<and> trace w' = trace w"
  by (cases "supabase_faults w") (auto simp: pop_fault_def)

lemma fetch_frame:
  "fetch a w = (out, w') \<Longrightarrow>
     db w' = db w \<and> socrata w' = socrata w \<and> supabase_faults w' = supabase_faults w
     \<and> trace w' = trace w \<and> length (fetch_script w') \<le> length (fetch_script w)"
  by (auto simp: fetch_def split: list.splits option.splits)

lemma fetch_consumes:
  "fetch a w = (out, w') \<Longrightarrow> fetch_script w \<noteq> [] \<Longrightarrow> length (fetch_script w') < length (fetch_script w)"
  by (auto simp: fetch_def split: list.splits option.splits)

lemma fetch_no_script:
  "fetch_script w = [] \<Longrightarrow> fetch a w = (FetchResponse 200 a, w)"
  by (simp add: fetch_def)

lemma fetch_retry_Suc_cases:
  assumes "fetch a w = (out, w1)" and "fetch_retry (Suc n) a w = (r, w')"
  shows "fetch_retry n a w1 = (r, w') \<or> w' = w1"
proof (cases out)
  case FetchThrows
  with assms show ?thesis by (simp split: if_splits)
next
  case (FetchResponse st b)
  with assms show ?thesis by (simp split: if_splits)
qed

lemma fetch_retry_frame:
  "fetch_retry n a w = (r, w') \<Longrightarrow>
     db w' = db w \<and> socrata w' = socrata w \<and> supabase_faults w' = supabase_faults w
     \<and> trace w' = trace w \<and> length (fetch_script w') \<le> length (fetch_script w)"
proof (induction n arbitrary: w)
  case 0
  then show ?case by simp
next
  case (Suc n)
  obtain out w1 where f: "fetch a w = (out, w1)" by (cases "fetch a w")
  note fr = fetch_frame[OF f]
  from fetch_retry_Suc_cases[OF f Suc.prems] show ?case
  proof
    assume "fetch_retry n a w1 = (r, w')"
    from Suc.IH[OF this] fr show ?thesis by simp
  next
    assume "w' = w1"
    with fr show ?thesis by simp
  qed
qed

lemma fetch_retry_consumes:
  assumes a: "fetch_retry (Suc n) a w = (r, w')" and ne: "fetch_script w \<noteq> []"
  shows "length (fetch_script w') < length (fetch_script w)"
proof -
  obtain out w1 where f: "fetch a w = (out, w1)" by (cases "fetch a w")
  have lt: "length (fetch_script w1) < length (fetch_script w)" by (rule fetch_consumes[OF f ne])
  from fetch_retry_Suc_cases[OF f a] show ?thesis
  proof
    assume "fetch_retry n a w1 = (r, w')"
    from fetch_retry_frame[OF this] lt show ?thesis by simp
  next
    assume "w' = w1"
    with lt show ?thesis by simp
  qed
qed

lemma fetch_retry_no_script:
  "fetch_script w = [] \<Longrightarrow> fetch_retry (Suc n) a w = (Inr a, w)"
  by (simp add: fetch_no_script response_ok_def)

lemma upsert_rpc_frame:
  assumes "upsert_rpc pg rs w = (r, w')"
  shows "socrata w' = socrata w \<and> fetch_script w' = fetch_script w"
proof -
  obtain f w1 where pf: "pop_fault (log_event (UpsertPage rs) w) = (f, w1)"
    by (cases "pop_fault (log_event (UpsertPage rs) w)")
  from pop_fault_frame[OF pf] have w1: "socrata w1 = socrata w" "fetch_script w1 = fetch_script w"
    by (simp_all add: log_event_def)
  from assms pf have "socrata w' = socrata w1 \<and> fetch_script w' = fetch_script w1"
    unfolding upsert_rpc_def by (cases f; cases "upsert_dob_permits pg rs (db w1)") auto
  with w1 show ?thesis by simp
qed

lemma advance_page: "page (advance result n st) = page st"
  by (simp add: advance_def Let_def split: option.splits)

lemma soql_rows_length:
  "length (soql_rows pg q ds) \<le> length ds - q_offset q"
proof -
  have "length (filter (soql_matches pg q) ds) - q_offset q \<le> length ds - q_offset q"
    by (rule diff_le_mono) simp
  then show ?thesis unfolding soql_rows_def by (simp add: min.coboundedI1)
qed

lemma sync_page_continue:
  assumes "sync_page pg ps until st w = (Inr (True, st'), w')"
  shows "socrata w' = socrata w \<and>
         (length (fetch_script w') < length (fetch_script w)
          \<or> (fetch_script w' = fetch_script w \<and> page st' = Suc (page st) \<and> 0 < ps
              \<and> Suc (page st) * ps \<le> length (socrata w)))"
proof -
  define q where "q = \<lparr>q_where_gt = newestSeen st, q_where_le = until, q_limit = ps, q_offset = page st * ps\<rparr>"
  define w0 where "w0 = log_event (PageRequest q) w"
  define ans where "ans = soql_rows pg q (socrata w)"
  have w0: "socrata w0 = socrata w" "fetch_script w0 = fetch_script w"
    by (simp_all add: w0_def log_event_def)
  obtain r w1 where fr: "fetch_retry 3 (BodyRecords ans) w0 = (r, w1)"
    by (cases "fetch_retry 3 (BodyRecords ans) w0")
  have sp: "sync_page pg ps until st w =
     (case (r, w1) of
        (Inl e, w1) \<Rightarrow> (Inl e, w1)
      | (Inr BodyInvalid, w1) \<Rightarrow> (Inl JsonParseError, w1)
      | (Inr BodyNotArray, w1) \<Rightarrow> (Inr (False, st), w1)
      | (Inr (BodyRecords records), w1) \<Rightarrow>
          if records = [] then (Inr (False, st), w1)
          else
            (case upsert_rpc pg records w1 of
               (Inl e, w2) \<Rightarrow> (Inl e, w2)
             | (Inr result, w2) \<Rightarrow>
                 (let st' = advance result (length records) st in
                  if length records < ps then (Inr (False, st'), w2)
                  else (Inr (True, st'\<lparr>page := page st' + 1\<rparr>), w2))))"
    unfolding sync_page_def Let_def q_def[symmetric] w0_def[symmetric] ans_def[symmetric] fr ..
  from assms sp obtain b where r: "r = Inr b" by (cases r) auto
  from assms sp r obtain records where b: "b = BodyRecords records" by (cases b) auto
  from assms sp r b have ne: "records \<noteq> []" by (auto split: if_splits)
  obtain ur w2 where up0: "upsert_rpc pg records w1 = (ur, w2)" by (cases "upsert_rpc pg records w1")
  from assms sp r b ne up0 obtain result where ur: "ur = Inr result" by (cases ur) auto
  from assms sp r b ne up0 ur have ge: "\<not> length records < ps"
    by (auto simp: Let_def split: if_splits)
  from assms sp r b ne up0 ur ge have
    st': "st' = (advance result (length records) st)\<lparr>page := page (advance result (length records) st) + 1\<rparr>" and
    w': "w' = w2"
    by (auto simp: Let_def)
  note f1 = fetch_retry_frame[OF fr]
  note f2 = upsert_rpc_frame[OF up0]
  have soc: "socrata w' = socrata w" using f1 f2 w0 w' by simp
  show ?thesis
  proof (cases "fetch_script w = []")
    case True
    then have "fetch_retry 3 (BodyRecords ans) w0 = (Inr (BodyRecords ans), w0)"
      using fetch_retry_no_script[of w0 2 "BodyRecords ans"] w0 by (simp add: numeral_3_eq_3)
    with fr r b have rec: "records = ans" and w1: "w1 = w0" by auto
    have "length ans \<le> length (socrata w) - page st * ps"
      using soql_rows_length[of pg q "socrata w"] by (simp add: ans_def q_def)
    moreover have "ps \<le> length ans" using ge rec by simp
    moreover have "0 < length ans" using ne rec by simp
    moreover have "length ans \<le> ps" by (simp add: ans_def soql_rows_def q_def)
    ultimately have "ps \<le> length (socrata w) - page st * ps" "0 < ps" by simp_all
    then have "Suc (page st) * ps \<le> length (socrata w) \<and> 0 < ps" by simp
    moreover have "fetch_script w' = fetch_script w" using f2 w' w1 w0 by simp
    moreover have "page st' = Suc (page st)" using st' by (simp add: advance_page)
    ultimately show ?thesis using soc by simp
  next
    case False
    then have "length (fetch_script w1) < length (fetch_script w0)"
      using fetch_retry_consumes[of 2 "BodyRecords ans" w0 r w1] fr w0 by (simp add: numeral_3_eq_3)
    then show ?thesis using soc f2 w' w0 by simp
  qed
qed

function sync_loop ::
  "postgres \<Rightarrow> nat \<Rightarrow> timestamptz option \<Rightarrow> loop_state \<Rightarrow> world \<Rightarrow> (sync_error + loop_state) \<times> world" where
  "sync_loop pg ps until st w =
     (case sync_page pg ps until st w of
        (Inl e, w') \<Rightarrow> (Inl e, w')
      | (Inr (go, st'), w') \<Rightarrow> if go then sync_loop pg ps until st' w' else (Inr st', w'))"
  by pat_completeness auto
termination
proof (relation "measures [\<lambda>(pg, ps, until, st, w). length (fetch_script w),
                           \<lambda>(pg, ps, until, st, w). Suc (length (socrata w)) - page st * ps]", goal_cases)
  case 1
  then show ?case by simp
next
  case (2 pg ps until st w x1 w' x1a go st')
  then have "sync_page pg ps until st w = (Inr (True, st'), w')" by simp
  from sync_page_continue[OF this]
  have soc: "socrata w' = socrata w" and
    d: "length (fetch_script w') < length (fetch_script w)
        \<or> (fetch_script w' = fetch_script w \<and> page st' = Suc (page st) \<and> 0 < ps
            \<and> Suc (page st) * ps \<le> length (socrata w))"
    by simp_all
  from d show ?case
  proof
    assume "length (fetch_script w') < length (fetch_script w)"
    then show ?thesis by simp
  next
    assume a: "fetch_script w' = fetch_script w \<and> page st' = Suc (page st) \<and> 0 < ps
            \<and> Suc (page st) * ps \<le> length (socrata w)"
    then have "page st * ps + ps \<le> length (socrata w)" "0 < ps" by simp_all
    then have "Suc (length (socrata w)) - (page st * ps + ps) < Suc (length (socrata w)) - page st * ps"
      by arith
    then have "Suc (length (socrata w)) - Suc (page st) * ps < Suc (length (socrata w)) - page st * ps"
      by (simp add: add.commute)
    with a soc show ?thesis by simp
  qed
qed


definition preflight_answer :: "postgres \<Rightarrow> timestamptz \<Rightarrow> jsonb list \<Rightarrow> json_body" where
  \<comment> \<open>Socrata's answer to \<open>$select=max(:updated_at) as max_updated $where :updated_at >
      watermark\<close>: one object, without the field when no record matches\<close>
  "preflight_answer pg watermark dataset =
     (case soql_rows pg \<lparr>q_where_gt = watermark, q_where_le = None,
                          q_limit = length dataset, q_offset = 0\<rparr> dataset of
        [] \<Rightarrow> BodyRecords [[]]
      | rs \<Rightarrow> BodyRecords [[(''max_updated'', coalesce_text (json_text (last rs) '':updated_at''))]])"

definition sync_failure :: "string \<Rightarrow> sync_error \<Rightarrow> sync_response" where
  \<comment> \<open>the \<open>catch\<close>: \<open>{success: false, error}\<close> with status 500\<close>
  "sync_failure mode e =
     \<lparr>sr_status = 500, sr_success = False, sr_mode = mode, sr_totalProcessed = 0,
      sr_totalInserted = 0, sr_totalUpdated = 0, sr_lastSyncedUpdatedAt = None,
      sr_error = Some e\<rparr>"

definition read_watermark ::
  "string \<Rightarrow> sync_request \<Rightarrow> world \<Rightarrow> (sync_error + timestamptz option) \<times> world" where
  \<comment> \<open>"Get watermark for incremental sync"; the RPC never returns NULL\<close>
  "read_watermark mode req w =
     (case sq_since req of
        Some since \<Rightarrow> (Inr (Some since), w)
      | None \<Rightarrow>
          if mode = ''incremental''
          then (case pop_fault (log_event ReadWatermark w) of
                  (True, w') \<Rightarrow> (Inl WatermarkFetchFailed, w')
                | (False, w') \<Rightarrow> (Inr (Some (current_dob_watermark (db w'))), w'))
          else (Inr None, w))"

definition preflight ::
  "postgres \<Rightarrow> timestamptz \<Rightarrow> world \<Rightarrow> (sync_error + bool) \<times> world" where
  \<comment> \<open>the optional preflight check; \<open>Inr True\<close>: nothing new, return early\<close>
  "preflight pg watermark w =
     (case fetch (preflight_answer pg watermark (socrata w)) (log_event (Preflight watermark) w) of
        (FetchThrows, w') \<Rightarrow> (Inl FetchFailed, w')
      | (FetchResponse st b, w') \<Rightarrow>
          if response_ok st
          then (case b of
                  BodyInvalid \<Rightarrow> (Inl JsonParseError, w')
                | BodyNotArray \<Rightarrow> (Inr True, w')
                | BodyRecords rs \<Rightarrow>
                    (Inr (rs = [] \<or> falsy (json_text (hd rs) ''max_updated'')), w'))
          else (Inr False, w'))"

definition write_sync_state ::
  "deno \<Rightarrow> string \<Rightarrow> sync_request \<Rightarrow> loop_state \<Rightarrow> world \<Rightarrow> (sync_error + unit) \<times> world" where
  \<comment> \<open>"Update sync state with high-water mark (only if not using custom date range)"\<close>
  "write_sync_state env mode req st w =
     (if sq_since req = None \<and> sq_until req = None
         \<and> (maxUpdatedAt st \<noteq> None \<or> mode = ''historical'')
      then
        (let v = (case maxUpdatedAt st of Some m \<Rightarrow> m | None \<Rightarrow> now env) in
         case pop_fault (log_event (WriteSyncState v) w) of
           (True, w') \<Rightarrow> (Inl StateUpdateFailed, w')
         | (False, w') \<Rightarrow>
             (Inr (), w'\<lparr>db := (db w')\<lparr>dataset_sync_state :=
                            upsert_by fst (''ipu4-2q9a'', v) (dataset_sync_state (db w'))\<rparr>\<rparr>))
      else (Inr (), w))"

definition run_pages ::
  "nat \<Rightarrow> deno \<Rightarrow> postgres \<Rightarrow> string \<Rightarrow> sync_request \<Rightarrow> timestamptz option \<Rightarrow> world
     \<Rightarrow> sync_response \<times> world" where
  \<comment> \<open>from "Fetch data from Socrata with pagination" to the end of the \<open>try\<close>\<close>
  "run_pages ps env pg mode req watermark w =
     (case sync_loop pg ps (sq_until req)
             \<lparr>page = 0, totalProcessed = 0, totalInserted = 0, totalUpdated = 0,
              newestSeen = (case watermark of None \<Rightarrow> 0 | Some t \<Rightarrow> t),
              maxUpdatedAt = None\<rparr> w of
        (Inl e, w1) \<Rightarrow> (sync_failure mode e, w1)
      | (Inr st, w1) \<Rightarrow>
          (case write_sync_state env mode req st w1 of
             (Inl e, w2) \<Rightarrow> (sync_failure mode e, w2)
           | (Inr u, w2) \<Rightarrow>
               (\<lparr>sr_status = 200, sr_success = True, sr_mode = mode,
                 sr_totalProcessed = totalProcessed st,
                 sr_totalInserted = totalInserted st,
                 sr_totalUpdated = totalUpdated st,
                 sr_lastSyncedUpdatedAt = maxUpdatedAt st,
                 sr_error = None\<rparr>, w2)))"

definition sync_with ::
  "nat \<Rightarrow> deno \<Rightarrow> postgres \<Rightarrow> sync_request \<Rightarrow> world \<Rightarrow> sync_response \<times> world" where
  \<comment> \<open>the handler, with the page size as a parameter\<close>
  "sync_with ps env pg req w =
     (let mode = (if falsy (sq_mode req) then ''incremental'' else coalesce_text (sq_mode req)) in
      if falsy (SUPABASE_URL env) \<or> falsy (SUPABASE_SERVICE_ROLE_KEY env)
      then (sync_failure mode MissingEnv, w)
      else
        (case read_watermark mode req w of
           (Inl e, w1) \<Rightarrow> (sync_failure mode e, w1)
         | (Inr watermark, w1) \<Rightarrow>
             (case watermark of
                Some t \<Rightarrow>
                  if mode = ''incremental'' \<and> sq_since req = None \<and> sq_until req = None
                  then
                    (case preflight pg t w1 of
                       (Inl e, w2) \<Rightarrow> (sync_failure mode e, w2)
                     | (Inr True, w2) \<Rightarrow>
                         (\<lparr>sr_status = 200, sr_success = True, sr_mode = mode,
                           sr_totalProcessed = 0, sr_totalInserted = 0, sr_totalUpdated = 0,
                           sr_lastSyncedUpdatedAt = watermark, sr_error = None\<rparr>, w2)
                     | (Inr False, w2) \<Rightarrow> run_pages ps env pg mode req watermark w2)
                  else run_pages ps env pg mode req watermark w1
              | None \<Rightarrow> run_pages ps env pg mode req watermark w1)))"

definition dob_permits_sync :: "deno \<Rightarrow> postgres \<Rightarrow> sync_request \<Rightarrow> world \<Rightarrow> sync_response \<times> world" where
  "dob_permits_sync = sync_with PAGE_SIZE"

section \<open>Notions used in the statements\<close>

fun first_is :: "('r \<Rightarrow> 'k) \<Rightarrow> 'r \<Rightarrow> 'r list \<Rightarrow> bool" where
  \<comment> \<open>the first row of the table with the key of \<open>r\<close> is \<open>r\<close> itself\<close>
  "first_is k r [] = False"
| "first_is k r (x # xs) = (if k x = k r then x = r else first_is k r xs)"

definition entities_unique :: "entity list \<Rightarrow> bool" where
  \<comment> \<open>the partial unique index on \<open>(entity_type, business_name)\<close>\<close>
  "entities_unique tbl = distinct (map entity_key (filter (\<lambda>e. e_business_name e \<noteq> None) tbl))"

definition settled :: "entity_cols \<Rightarrow> entity list \<Rightarrow> bool" where
  \<comment> \<open>the table has a row with the key of \<open>c\<close>, and every such row has the columns of \<open>c\<close>\<close>
  "settled c tbl =
     (list_ex (entity_conflict c) tbl
      \<and> list_all (\<lambda>x. \<not> entity_conflict c x \<or> entity_set_excluded c x = x) tbl)"

fun null_rows :: "nat \<Rightarrow> entity_cols list \<Rightarrow> entity list" where
  \<comment> \<open>the rows inserted for the proposed rows without a business name\<close>
  "null_rows n [] = []"
| "null_rows n (c # cs) =
     (if e_business_name c = None then entity_new c n # null_rows (Suc n) cs else null_rows n cs)"

definition loop_inv :: "timestamptz \<Rightarrow> loop_state \<Rightarrow> bool" where
  \<comment> \<open>the rolling watermark never falls below the start, and a recorded maximum is above it\<close>
  "loop_inv start st =
     (start \<le> newestSeen st \<and> (case maxUpdatedAt st of None \<Rightarrow> True | Some m \<Rightarrow> start < m))"

definition no_state_write :: "event list \<Rightarrow> bool" where
  "no_state_write es = list_all (\<lambda>e. case e of WriteSyncState v \<Rightarrow> False | _ \<Rightarrow> True) es"

definition sync_state_outcome ::
  "deno \<Rightarrow> sync_request \<Rightarrow> store \<Rightarrow> sync_response \<Rightarrow> store \<Rightarrow> bool" where
  \<comment> \<open>what a run may have done to \<open>dataset_sync_state\<close>\<close>
  "sync_state_outcome env req s resp s' =
     ((\<not> sr_success resp \<or> sq_since req \<noteq> None \<or> sq_until req \<noteq> None
         \<longrightarrow> dataset_sync_state s' = dataset_sync_state s)
      \<and> (dataset_sync_state s' = dataset_sync_state s
          \<or> (\<exists>v. dataset_sync_state s' = upsert_by fst (''ipu4-2q9a'', v) (dataset_sync_state s)
                 \<and> (sr_mode resp = ''incremental'' \<longrightarrow> current_dob_watermark s < v)
                 \<and> (sr_lastSyncedUpdatedAt resp = Some v
                     \<or> (sr_mode resp = ''historical'' \<and> sr_lastSyncedUpdatedAt resp = None
                         \<and> v = now env)))))"

section \<open>Concrete inputs\<close>

text \<open>
  A small platform for the closed theorems.  A time stamp or a number is written in
  decimal digits and read as that integer; a date is either \<open>YYYY-MM-DD\<close>, read as the
  integer \<open>YYYYMMDD\<close>, or decimal digits; the day of an instant is the instant divided
  by 100.  Like PostgreSQL, every input function rejects the empty text.  The demo
  PostGIS puts every point into every tile and encodes a feature as one byte.
\<close>

definition demo_in :: "string \<Rightarrow> int option" where
  "demo_in t = (if t \<noteq> [] \<and> list_all is_digit t then Some (int (decimal_value t)) else None)"

definition demo_date_in :: "string \<Rightarrow> int option" where
  "demo_date_in t =
     (if date_regex t then Some (int (decimal_value (filter is_digit t))) else demo_in t)"

definition demo_pg :: postgres where
  "demo_pg =
     \<lparr>timestamptz_in = demo_in, date_in = demo_date_in,
      float8_in = (\<lambda>t. map_option real_of_int (demo_in t)),
      date_to_timestamptz = (\<lambda>d. d * 100), timestamptz_to_date = (\<lambda>t. t div 100)\<rparr>"

definition demo_gis :: "(unit, point) postgis" where
  "demo_gis =
     \<lparr>ST_TileEnvelope = (\<lambda>z x y. ()),
      ST_Transform_4326 = (\<lambda>e. e),
      ST_Transform_3857 = (\<lambda>g. g),
      bbox_overlaps = (\<lambda>g e. True),
      ST_Intersects = (\<lambda>g e. True),
      ST_SnapToGrid = (\<lambda>g n. g),
      ST_AsMVTGeom = (\<lambda>g e extent buf clip. g),
      ST_AsMVT = (\<lambda>rows name extent col. if rows = [] then None else Some (map (\<lambda>r. 1) rows))\<rparr>"

definition empty_store :: store where
  "empty_store =
     \<lparr>dob_buildings = [], dob_permit_details = [], dob_entities = [], dob_permits = [],
      dataset_sync_state = [], mvt_cache = []\<rparr>"

definition quiet_world :: "store \<Rightarrow> jsonb list \<Rightarrow> world" where
  \<comment> \<open>no fault, nothing recorded yet\<close>
  "quiet_world s dataset =
     \<lparr>db = s, socrata = dataset, supabase_faults = [], fetch_script = [], trace = []\<rparr>"

definition demo_env :: deno where
  "demo_env =
     \<lparr>SUPABASE_URL = Some ''http://localhost:54321'', SUPABASE_SERVICE_ROLE_KEY = Some ''key'',
      now = 1000, now_iso_date = ''2025-11-12'', js_date_valid = (\<lambda>t. True)\<rparr>"

definition tile_get :: "string \<Rightarrow> string option \<Rightarrow> tile_request" where
  "tile_get path date =
     \<lparr>req_method = ''GET'', req_pathname = path, req_date = date, req_if_none_match = None\<rparr>"

definition demo_permit ::
  "string \<Rightarrow> float8 option \<Rightarrow> float8 option \<Rightarrow> timestamptz option \<Rightarrow> permit" where
  \<comment> \<open>a permit row with an id, coordinates and an issuance date, before the trigger\<close>
  "demo_permit i lat lon issued =
     \<lparr>p_id = i, p_updated_at = 1, p_borough = None, p_bin = None,
      p_gis_latitude = lat, p_gis_longitude = lon, p_community_board = None,
      p_council_district = None, p_nta_name = None, p_zipcode = None,
      p_permit_issuance_date = issued, p_expiration_date = None, p_job_start_date = None,
      p_permit_status = None, p_permit_type = None, p_work_type = None, p_job_type = None,
      p_bldg_type = None, p_residential = None, p_dobrundate = None, p_permit_number = None,
      p_raw = [], p_geom = None, p_geom_4326 = None\<rparr>"

definition scenario_a :: jsonb where
  \<comment> \<open>Scenario A of the specification, in the demo platform's notation\<close>
  "scenario_a =
     [('':id'', ''P1''), ('':updated_at'', ''20240102''),
      (''gis_latitude'', ''40''), (''gis_longitude'', ''73'')]"

definition scenario_a_store :: store where
  "scenario_a_store =
     empty_store\<lparr>dob_permits :=
       [populate_geom_from_coords
          ((demo_permit ''P1'' (Some 40) (Some 73) None)
             \<lparr>p_updated_at := 20240102, p_raw := scenario_a\<rparr>)]\<rparr>"

definition demo_tile_store :: store where
  \<comment> \<open>one permit with a geometry, issued on 2025-11-12\<close>
  "demo_tile_store =
     empty_store\<lparr>dob_permits :=
       [populate_geom_from_coords (demo_permit ''P1'' (Some 40) (Some 73) (Some 2025111209))]\<rparr>"

definition demo_mixed_store :: store where
  \<comment> \<open>two permits with a geometry: one issued on 2025-11-12, one without an issuance date\<close>
  "demo_mixed_store =
     empty_store\<lparr>dob_permits :=
       [populate_geom_from_coords (demo_permit ''P1'' (Some 40) (Some 73) (Some 2025111209)),
        populate_geom_from_coords (demo_permit ''P2'' (Some 41) (Some 74) None)]\<rparr>"

definition acme_zed :: jsonb where
  "acme_zed =
     [('':id'', ''P1''), ('':updated_at'', ''2''),
      (''owner_s_business_name'', ''ACME''), (''owner_s_first_name'', ''Zed'')]"

definition acme_al :: jsonb where
  "acme_al =
     [('':id'', ''P2''), ('':updated_at'', ''3''),
      (''owner_s_business_name'', '' ACME ''), (''owner_s_first_name'', ''Al'')]"

definition owner_bob :: jsonb where
  "owner_bob = [('':id'', ''P3''), ('':updated_at'', ''4''), (''owner_s_first_name'', ''Bob'')]"

definition owner_amy :: jsonb where
  "owner_amy = [('':id'', ''P4''), ('':updated_at'', ''5''), (''owner_s_first_name'', ''Amy'')]"

definition demo_empty_expiration :: jsonb where
  "demo_empty_expiration =
     [('':id'', ''P1''), ('':updated_at'', ''20240102''), (''expiration_date'', [])]"

definition historical :: sync_request where
  "historical = \<lparr>sq_mode = Some ''historical'', sq_since = None, sq_until = None\<rparr>"

definition incremental :: sync_request where
  "incremental = \<lparr>sq_mode = None, sq_since = None, sq_until = None\<rparr>"

definition late_record :: jsonb where
  "late_record = [('':id'', ''P1''), ('':updated_at'', ''5'')]"

definition clock_store :: store where
  \<comment> \<open>the store after a historical run at time 1000 against an empty dataset\<close>
  "clock_store = empty_store\<lparr>dataset_sync_state := [(''ipu4-2q9a'', 1000)]\<rparr>"

definition page_record :: "string \<Rightarrow> string \<Rightarrow> jsonb" where
  \<comment> \<open>an upstream record with its system fields only\<close>
  "page_record i t = [('':id'', i), ('':updated_at'', t)]"

definition listing_gis :: "(unit, point) postgis" where
  \<comment> \<open>like the demo PostGIS, with an encoder that writes the features in the order in
      which it receives them, one byte a feature: the last character of its id\<close>
  "listing_gis =
     demo_gis\<lparr>ST_AsMVT :=
       (\<lambda>rows name extent col.
          if rows = [] then None else Some (map (\<lambda>r. of_char (last (m_id r))) rows))\<rparr>"

definition pair_store :: store where
  \<comment> \<open>two permits with a geometry, issued on 2025-11-12\<close>
  "pair_store =
     empty_store\<lparr>dob_permits :=
       [populate_geom_from_coords (demo_permit ''P1'' (Some 40) (Some 73) (Some 2025111209)),
        populate_geom_from_coords (demo_permit ''P2'' (Some 41) (Some 74) (Some 2025111280))]\<rparr>"

definition zed_store :: store where
  \<comment> \<open>the store after the page \<open>[acme_zed]\<close> has been applied to the empty store\<close>
  "zed_store =
     (case upsert_dob_permits demo_pg [acme_zed] empty_store of
        Inl e \<Rightarrow> empty_store
      | Inr (res, s) \<Rightarrow> s)"

definition stale_store :: store where
  \<comment> \<open>\<open>demo_tile_store\<close> after a request for the tile 5/0/0 of 2025-11-12, which caches the
      tile, and then a page with the record of Scenario A, which has the id of the permit
      and no issuance date\<close>
  "stale_store =
     (case upsert_dob_permits demo_pg [scenario_a]
             (db (snd (tiles_handler demo_env demo_pg listing_gis
                         (tile_get ''/tiles/permits/5/0/0'' (Some ''2025-11-12''))
                         (quiet_world demo_tile_store [])))) of
        Inl e \<Rightarrow> empty_store
      | Inr (res, s) \<Rightarrow> s)"

section \<open>Auxiliary facts\<close>

lemma map_err_Inl:
  "x \<in> set xs \<Longrightarrow> f x = Inl e \<Longrightarrow> \<exists>e'. map_err f xs = Inl e'"
  by (induction xs) (auto split: sum.splits)

lemma cast_text_empty:
  "f [] = None \<Longrightarrow> cast_text f (Some []) = Inl InvalidTextRepresentation"
  by (simp add: cast_text_def)

lemma bind_err_Inl [simp]: "bind_err (Inl e) f = Inl e"
  by (simp add: bind_err_def)

lemma bind_err_Inr [simp]: "bind_err (Inr a) f = f a"
  by (simp add: bind_err_def)

lemma stage_of_empty_date:
  assumes "date_in pg [] = None"
      and "json_text r ''expiration_date'' = Some [] \<or> json_text r ''job_start_date'' = Some []
           \<or> json_text r ''permit_status_date'' = Some []"
  shows "\<exists>e. stage_of pg r = Inl e"
proof -
  have c: "\<And>v. v = Some [] \<Longrightarrow> cast_text (date_in pg) v = Inl InvalidTextRepresentation"
    using assms(1) by (simp add: cast_text_def)
  obtain a where a: "a = cast_text (timestamptz_in pg) (json_text r '':updated_at'')" by simp
  obtain b where b: "b = cast_text (date_in pg) (json_text r ''permit_status_date'')" by simp
  obtain c' where c': "c' = cast_text (date_in pg) (json_text r ''expiration_date'')" by simp
  obtain d where d: "d = cast_text (date_in pg) (json_text r ''job_start_date'')" by simp
  have "(\<exists>e. b = Inl e) \<or> (\<exists>e. c' = Inl e) \<or> (\<exists>e. d = Inl e)"
    using assms(2) c b c' d by auto
  then show ?thesis
    unfolding stage_of_def a[symmetric] b[symmetric] c'[symmetric] d[symmetric]
    by (cases a; cases b; cases c'; cases d) auto
qed

lemma populate_idem: "populate_geom_from_coords (populate_geom_from_coords p) = populate_geom_from_coords p"
  by (simp add: populate_geom_from_coords_def split: option.splits)

lemma set_upsert_by: "set (upsert_by k r t) \<subseteq> insert r (set t)"
  by (induction t) auto

lemma set_foldl_upsert:
  "set (foldl (\<lambda>t r. upsert_by k (f r) t) tbl rows) \<subseteq> set tbl \<union> f ` set rows"
proof (induction rows arbitrary: tbl)
  case Nil
  then show ?case by simp
next
  case (Cons r rows)
  have "set (foldl (\<lambda>t r. upsert_by k (f r) t) (upsert_by k (f r) tbl) rows)
          \<subseteq> set (upsert_by k (f r) tbl) \<union> f ` set rows" by (rule Cons.IH)
  also have "\<dots> \<subseteq> insert (f r) (set tbl) \<union> f ` set rows"
    using set_upsert_by[of k "f r" tbl] by auto
  finally show ?case by auto
qed

lemma upsert_dob_permits_permits:
  assumes "upsert_dob_permits pg rows s = Inr (res, s')"
  shows "\<exists>st ps. stage pg rows = Inr st \<and> map_err (permit_of pg) st = Inr ps \<and> distinct (map p_id ps)
          \<and> dob_permits s' = foldl (\<lambda>t r. upsert_by p_id (populate_geom_from_coords r) t) (dob_permits s) ps
          \<and> inserted res = length (filter (\<lambda>r. \<not> permit_exists (dob_permits s) r) ps)
          \<and> updated res = length (filter (permit_exists (dob_permits s)) ps)
          \<and> max_updated res = sql_max (map stg_updated_at st)"
proof -
  from assms obtain st where st: "stage pg rows = Inr st"
    by (cases "stage pg rows") (auto simp: upsert_dob_permits_def)
  from assms st obtain dt where dt: "permit_details_upsert pg st (dob_permit_details s) = Inr dt"
    by (cases "permit_details_upsert pg st (dob_permit_details s)") (auto simp: upsert_dob_permits_def)
  from assms st dt obtain pt ins upd where pu: "permits_upsert pg st (dob_permits s) = Inr (pt, ins, upd)"
    by (cases "permits_upsert pg st (dob_permits s)") (auto simp: upsert_dob_permits_def)
  from pu obtain ps where ps: "map_err (permit_of pg) st = Inr ps"
    by (cases "map_err (permit_of pg) st") (auto simp: permits_upsert_def)
  from pu ps have d: "distinct (map p_id ps)" and
    pt: "pt = foldl (\<lambda>t r. upsert_by p_id (populate_geom_from_coords r) t) (dob_permits s) ps" and
    ins: "ins = length (filter (\<lambda>r. \<not> permit_exists (dob_permits s) r) ps)" and
    upd: "upd = length (filter (permit_exists (dob_permits s)) ps)"
    by (auto simp: permits_upsert_def split: if_splits)
  from assms st dt pu have "dob_permits s' = pt" "inserted res = ins" "updated res = upd"
     "max_updated res = sql_max (map stg_updated_at st)"
    by (auto simp: upsert_dob_permits_def)
  with st ps d pt ins upd show ?thesis by auto
qed

lemma map_filter_filter:
  "(\<And>x. \<not> P x \<Longrightarrow> f x = None) \<Longrightarrow> List.map_filter f (filter P xs) = List.map_filter f xs"
  by (induction xs) (auto simp: List.map_filter_def)

lemma tile_src_nonnull_geom:
  "tile_src pg gis z x y d (filter (\<lambda>p. p_geom_4326 p \<noteq> None) ps) = tile_src pg gis z x y d ps"
  unfolding tile_src_def by (rule map_filter_filter) (simp split: option.splits)

lemma cache_lookup_frame:
  assumes "cache_lookup k w = (r, w')"
  shows "db w' = db w \<and> trace w' = trace w @ [CacheLookup k]"
proof -
  obtain f w1 where pf: "pop_fault (log_event (CacheLookup k) w) = (f, w1)"
    by (cases "pop_fault (log_event (CacheLookup k) w)")
  from pop_fault_frame[OF pf] have "db w1 = db w" "trace w1 = trace w @ [CacheLookup k]"
    by (simp_all add: log_event_def)
  moreover from assms pf have "w' = w1"
    unfolding cache_lookup_def by (cases f) (auto split: option.splits if_splits)
  ultimately show ?thesis by simp
qed

lemma tile_rpc_frame:
  assumes "tile_rpc pg gis z x y d w = (r, w')"
  shows "db w' = db w \<and> trace w' = trace w @ [TileRpc z x y (Some d)]"
proof -
  obtain f w1 where pf: "pop_fault (log_event (TileRpc z x y (Some d)) w) = (f, w1)"
    by (cases "pop_fault (log_event (TileRpc z x y (Some d)) w)")
  from pop_fault_frame[OF pf] have "db w1 = db w" "trace w1 = trace w @ [TileRpc z x y (Some d)]"
    by (simp_all add: log_event_def)
  moreover from assms pf have "w' = w1"
    unfolding tile_rpc_def by (cases f) (auto split: sum.splits)
  ultimately show ?thesis by simp
qed

lemma cache_write_frame:
  "dob_permits (db (cache_write env k m w)) = dob_permits (db w)
   \<and> dob_buildings (db (cache_write env k m w)) = dob_buildings (db w)
   \<and> dob_permit_details (db (cache_write env k m w)) = dob_permit_details (db w)
   \<and> dob_entities (db (cache_write env k m w)) = dob_entities (db w)
   \<and> dataset_sync_state (db (cache_write env k m w)) = dataset_sync_state (db w)
   \<and> trace (cache_write env k m w) = trace w @ [CacheWrite k m]"
proof -
  obtain f w1 where pf: "pop_fault (log_event (CacheWrite k m) w) = (f, w1)"
    by (cases "pop_fault (log_event (CacheWrite k m) w)")
  from pop_fault_frame[OF pf] have "db w1 = db w" "trace w1 = trace w @ [CacheWrite k m]"
    by (simp_all add: log_event_def)
  then show ?thesis
    unfolding cache_write_def pf by (cases f; cases k) auto
qed

lemma serve_tile_permits:
  assumes "serve_tile env pg gis req z x y d w = (resp, w')"
  shows "dob_permits (db w') = dob_permits (db w)"
proof -
  let ?k = "(''permits'', z, x, y, d, d)"
  obtain c w1 where cl: "cache_lookup ?k w = (c, w1)" by (cases "cache_lookup ?k w")
  note f1 = cache_lookup_frame[OF cl]
  show ?thesis
  proof (cases c)
    case (Some mvt)
    with assms cl have "w' = w1"
      unfolding serve_tile_def Let_def by (auto split: option.splits)
    with f1 show ?thesis by simp
  next
    case None
    obtain r w2 where tr: "tile_rpc pg gis z x y d w1 = (r, w2)" by (cases "tile_rpc pg gis z x y d w1")
    note f2 = tile_rpc_frame[OF tr]
    from assms cl None tr have "w' = w2 \<or> (\<exists>t. w' = cache_write env ?k t w2)"
      unfolding serve_tile_def Let_def
      by (auto split: sum.splits if_splits js_value.splits option.splits)
    with f1 f2 show ?thesis by (auto simp: cache_write_frame)
  qed
qed

lemma tiles_handler_permits:
  assumes "tiles_handler env pg gis req w = (resp, w')"
  shows "dob_permits (db w') = dob_permits (db w)"
proof (cases "validate_request env req")
  case (Inl r)
  with assms show ?thesis by (simp add: tiles_handler_def)
next
  case (Inr v)
  obtain z x y d where v: "v = (z, x, y, d)" by (cases v)
  with assms Inr have "serve_tile env pg gis req z x y d w = (resp, w')"
    by (simp add: tiles_handler_def)
  then show ?thesis by (rule serve_tile_permits)
qed

lemma index_of_append:
  "a \<notin> set pre \<Longrightarrow> index_of a (pre @ a # rest) = Some (length pre)"
  by (induction pre) auto

lemma validate_path:
  assumes "req_method req \<noteq> ''OPTIONS''"
      and "\<not> falsy (SUPABASE_URL env)" and "\<not> falsy (SUPABASE_SERVICE_ROLE_KEY env)"
      and "path_parts (req_pathname req) = pre @ ''tiles'' # ''permits'' # zs # xs # ys # post"
      and "''tiles'' \<notin> set pre"
  shows "validate_request env req =
     (case (parseInt10 zs, parseInt10 xs, parseInt10 ys) of
        (Some z, Some x, Some y) \<Rightarrow>
          if z < 0 \<or> z > 16
          then Inl (bad_request ''Zoom level must be between 0 and 16'')
          else if x < 0 \<or> x \<ge> 2 ^ nat z \<or> y < 0 \<or> y \<ge> 2 ^ nat z
          then Inl (bad_request ''Tile coordinates out of range'')
          else
            (let dateStr = (if falsy (req_date req) then now_iso_date env
                            else coalesce_text (req_date req)) in
             if \<not> date_regex dateStr
             then Inl (bad_request ''Invalid date format. Use YYYY-MM-DD'')
             else if \<not> js_date_valid env (dateStr @ ''T00:00:00Z'')
             then Inl (bad_request ''Invalid date format. Use YYYY-MM-DD'')
             else Inr (z, x, y, dateStr))
      | _ \<Rightarrow> Inl (bad_request ''Invalid tile coordinates''))"
proof -
  let ?pp = "pre @ ''tiles'' # ''permits'' # zs # xs # ys # post"
  have i: "index_of ''tiles'' ?pp = Some (length pre)"
    by (rule index_of_append[OF assms(5)])
  have n: "?pp ! (length pre + 1) = ''permits''" "?pp ! (length pre + 2) = zs"
    "?pp ! (length pre + 3) = xs" "?pp ! (length pre + 4) = ys"
    by (simp_all add: nth_append)
  have l: "\<not> length ?pp < length pre + 5" by simp
  show ?thesis
    unfolding validate_request_def Let_def assms(4) i option.case
    using assms(1,2,3) n l by (simp only: if_False if_True simp_thms)
qed

lemma validate_date:
  assumes "validate_request env req = Inr (z, x, y, dateStr)"
  shows "date_regex dateStr \<and> dateStr = (if falsy (req_date req) then now_iso_date env else coalesce_text (req_date req))"
  using assms unfolding validate_request_def Let_def
  by (simp split: if_splits option.splits prod.splits)

lemma serve_tile_trace:
  assumes "serve_tile env pg gis req z x y d w = (resp, w')"
  shows "\<exists>es. trace w' = trace w @ es \<and> (\<forall>a b c. TileRpc a b c None \<notin> set es)"
proof -
  let ?k = "(''permits'', z, x, y, d, d)"
  obtain c w1 where cl: "cache_lookup ?k w = (c, w1)" by (cases "cache_lookup ?k w")
  note f1 = cache_lookup_frame[OF cl]
  show ?thesis
  proof (cases c)
    case (Some mvt)
    with assms cl have "w' = w1"
      unfolding serve_tile_def Let_def by (auto split: option.splits)
    with f1 show ?thesis by simp
  next
    case None
    obtain r w2 where tr: "tile_rpc pg gis z x y d w1 = (r, w2)" by (cases "tile_rpc pg gis z x y d w1")
    note f2 = tile_rpc_frame[OF tr]
    from assms cl None tr have "w' = w2 \<or> (\<exists>t. w' = cache_write env ?k t w2)"
      unfolding serve_tile_def Let_def
      by (auto split: sum.splits if_splits js_value.splits option.splits)
    with f1 f2 show ?thesis by (auto simp: cache_write_frame)
  qed
qed

lemma first_is_upsert_by: "first_is k r (upsert_by k r t)"
  by (induction t) simp_all

lemma first_is_idem: "first_is k r t \<Longrightarrow> upsert_by k r t = t"
  by (induction t) (simp_all split: if_splits)

lemma first_is_other: "first_is k r t \<Longrightarrow> k r' \<noteq> k r \<Longrightarrow> first_is k r (upsert_by k r' t)"
proof (induction t)
  case Nil
  then show ?case by simp
next
  case (Cons x t)
  show ?case
  proof (cases "k x = k r'")
    case True
    with Cons.prems show ?thesis by simp
  next
    case False
    with Cons show ?thesis by (simp split: if_splits)
  qed
qed

lemma first_is_foldl:
  "first_is k r t \<Longrightarrow> k r \<notin> k ` set rs \<Longrightarrow> first_is k r (foldl (\<lambda>t r. upsert_by k r t) t rs)"
proof (induction rs arbitrary: t)
  case Nil
  then show ?case by simp
next
  case (Cons a rs)
  from Cons.prems have "first_is k r (upsert_by k a t)" by (intro first_is_other) auto
  with Cons show ?case by simp
qed

lemma foldl_upsert_all_first:
  "distinct (map k rs) \<Longrightarrow> r \<in> set rs \<Longrightarrow> first_is k r (foldl (\<lambda>t r. upsert_by k r t) t rs)"
proof (induction rs arbitrary: t)
  case Nil
  then show ?case by simp
next
  case (Cons a rs)
  show ?case
  proof (cases "r = a")
    case True
    have "first_is k a (upsert_by k a t)" by (rule first_is_upsert_by)
    moreover have "k a \<notin> k ` set rs" using Cons.prems(1) by auto
    ultimately show ?thesis using True first_is_foldl[of k a "upsert_by k a t" rs] by simp
  next
    case False
    with Cons show ?thesis by auto
  qed
qed

lemma foldl_upsert_settled:
  "(\<And>r. r \<in> set rs \<Longrightarrow> first_is k r t) \<Longrightarrow> foldl (\<lambda>t r. upsert_by k r t) t rs = t"
  by (induction rs) (auto simp: first_is_idem)

lemma foldl_upsert_twice:
  assumes "distinct (map k rs)"
  shows "foldl (\<lambda>t r. upsert_by k r t) (foldl (\<lambda>t r. upsert_by k r t) t rs) rs
           = foldl (\<lambda>t r. upsert_by k r t) t rs"
  by (rule foldl_upsert_settled) (rule foldl_upsert_all_first[OF assms])

lemma first_is_key_mem: "first_is k r t \<Longrightarrow> k r \<in> k ` set t"
  by (induction t) (auto split: if_splits)

lemma distinct_on_keys: "set (map k (distinct_on k xs)) = set (map k xs)"
proof (induction k xs rule: distinct_on.induct)
  case (1 k)
  then show ?case by simp
next
  case (2 k x xs)
  then show ?case by auto
qed

lemma set_distinct_on: "set (distinct_on k xs) \<subseteq> set xs"
proof (induction k xs rule: distinct_on.induct)
  case (1 k)
  then show ?case by simp
next
  case (2 k x xs)
  then show ?case by auto
qed

lemma distinct_distinct_on: "distinct (map k (distinct_on k xs))"
proof (induction k xs rule: distinct_on.induct)
  case (1 k)
  then show ?case by simp
next
  case (2 k x xs)
  have "k x \<notin> k ` set (distinct_on k (filter (\<lambda>y. k y \<noteq> k x) xs))"
    using set_distinct_on[of k "filter (\<lambda>y. k y \<noteq> k x) xs"] by auto
  with 2 show ?case by simp
qed

lemma map_err_length: "map_err f xs = Inr ys \<Longrightarrow> length ys = length xs"
  by (induction xs arbitrary: ys) (auto split: sum.splits)

lemma foldl_map: "foldl (\<lambda>t r. g (f r) t) t rs = foldl (\<lambda>t r. g r t) t (map f rs)"
  by (induction rs arbitrary: t) auto

lemma populate_id: "p_id (populate_geom_from_coords r) = p_id r"
  by (simp add: populate_geom_from_coords_def split: option.splits)

lemma key_set_excluded [simp]: "entity_key (entity_set_excluded c x) = entity_key x"
  by (simp add: entity_key_def entity_set_excluded_def)

lemma bname_set_excluded [simp]: "e_business_name (entity_set_excluded c x) = e_business_name x"
  by (simp add: entity_set_excluded_def)

lemma conflict_set_excluded [simp]:
  "entity_conflict c' (entity_set_excluded c x) = entity_conflict c' x"
  by (simp add: entity_conflict_def)

lemma set_excluded_idem [simp]:
  "entity_set_excluded c (entity_set_excluded c x) = entity_set_excluded c x"
  by (simp add: entity_set_excluded_def)

lemma key_entity_new [simp]: "entity_key (entity_new c n) = entity_key c"
  by (simp add: entity_key_def entity_new_def)

lemma bname_entity_new [simp]: "e_business_name (entity_new c n) = e_business_name c"
  by (simp add: entity_new_def)

lemma set_excluded_new [simp]: "entity_set_excluded c (entity_new c n) = entity_new c n"
  by (simp add: entity_set_excluded_def entity_new_def)

lemma conflict_same_key:
  "entity_conflict c x \<Longrightarrow> entity_conflict c' x \<Longrightarrow> entity_key c' = entity_key c"
  by (simp add: entity_conflict_def)

lemma upsert_row_null:
  "e_business_name c = None \<Longrightarrow> entity_upsert_row c tbl = tbl @ [entity_new c (length tbl)]"
  by (simp add: entity_upsert_row_def entity_conflict_def list_ex_iff)

lemma settled_upsert_row:
  assumes "e_business_name c \<noteq> None"
  shows "settled c (entity_upsert_row c tbl)"
proof (cases "list_ex (entity_conflict c) tbl")
  case True
  then obtain x where x: "x \<in> set tbl" "entity_conflict c x" by (auto simp: list_ex_iff)
  let ?t = "map (\<lambda>x. if entity_conflict c x then entity_set_excluded c x else x) tbl"
  have "entity_set_excluded c x \<in> set ?t" using x by force
  moreover have "entity_conflict c (entity_set_excluded c x)" using x by simp
  ultimately have ex: "list_ex (entity_conflict c) ?t" unfolding list_ex_iff by blast
  have al: "list_all (\<lambda>x. \<not> entity_conflict c x \<or> entity_set_excluded c x = x) ?t"
    by (auto simp: list_all_iff)
  from True ex al show ?thesis by (simp add: settled_def entity_upsert_row_def)
next
  case False
  have "entity_conflict c (entity_new c (length tbl))"
    using assms by (simp add: entity_conflict_def)
  with False show ?thesis
    by (auto simp: settled_def entity_upsert_row_def list_ex_iff list_all_iff)
qed

lemma settled_idem: "settled c tbl \<Longrightarrow> entity_upsert_row c tbl = tbl"
proof -
  assume s: "settled c tbl"
  then have "map (\<lambda>x. if entity_conflict c x then entity_set_excluded c x else x) tbl = tbl"
    by (intro map_idI) (auto simp: settled_def list_all_iff)
  with s show ?thesis by (simp add: entity_upsert_row_def settled_def)
qed

lemma settled_other:
  assumes "settled c tbl" and "entity_key c' \<noteq> entity_key c"
  shows "settled c (entity_upsert_row c' tbl)"
proof -
  have nc: "\<And>x. entity_conflict c' x \<Longrightarrow> \<not> entity_conflict c x"
    using assms(2) conflict_same_key by blast
  have new: "\<not> entity_conflict c (entity_new c' (length tbl))"
    using assms(2) by (simp add: entity_conflict_def)
  show ?thesis
  proof (cases "list_ex (entity_conflict c') tbl")
    case True
    have ex: "list_ex (entity_conflict c)
                (map (\<lambda>x. if entity_conflict c' x then entity_set_excluded c' x else x) tbl)"
      using assms(1) nc by (auto simp: settled_def list_ex_iff)
    have al: "list_all (\<lambda>x. \<not> entity_conflict c x \<or> entity_set_excluded c x = x)
                (map (\<lambda>x. if entity_conflict c' x then entity_set_excluded c' x else x) tbl)"
      using assms(1) nc by (auto simp: settled_def list_all_iff)
    from True ex al show ?thesis by (simp add: settled_def entity_upsert_row_def)
  next
    case False
    with assms(1) new show ?thesis
      by (auto simp: settled_def entity_upsert_row_def list_ex_iff list_all_iff)
  qed
qed

lemma settled_foldl:
  "settled c t \<Longrightarrow> entity_key c \<notin> entity_key ` set cs
     \<Longrightarrow> settled c (foldl (\<lambda>t c. entity_upsert_row c t) t cs)"
proof (induction cs arbitrary: t)
  case Nil
  then show ?case by simp
next
  case (Cons a cs)
  from Cons.prems have "settled c (entity_upsert_row a t)" by (intro settled_other) auto
  with Cons show ?case by simp
qed

lemma foldl_entities_all_settled:
  "distinct (map entity_key cs) \<Longrightarrow> c \<in> set cs \<Longrightarrow> e_business_name c \<noteq> None
     \<Longrightarrow> settled c (foldl (\<lambda>t c. entity_upsert_row c t) t cs)"
proof (induction cs arbitrary: t)
  case Nil
  then show ?case by simp
next
  case (Cons a cs)
  show ?case
  proof (cases "c = a")
    case True
    have "settled a (entity_upsert_row a t)" using Cons.prems(3) True by (intro settled_upsert_row) simp
    moreover have "entity_key a \<notin> entity_key ` set cs" using Cons.prems(1) by auto
    ultimately show ?thesis using True settled_foldl[of a "entity_upsert_row a t" cs] by simp
  next
    case False
    with Cons show ?thesis by auto
  qed
qed

lemma settled_append_null:
  "settled c t \<Longrightarrow> e_business_name x = None \<Longrightarrow> settled c (t @ [x])"
  by (auto simp: settled_def list_ex_iff list_all_iff entity_conflict_def entity_key_def)

lemma foldl_entities_second:
  "(\<And>c. c \<in> set cs \<Longrightarrow> e_business_name c \<noteq> None \<Longrightarrow> settled c t)
     \<Longrightarrow> foldl (\<lambda>t c. entity_upsert_row c t) t cs = t @ null_rows (length t) cs"
proof (induction cs arbitrary: t)
  case Nil
  then show ?case by simp
next
  case (Cons a cs)
  show ?case
  proof (cases "e_business_name a = None")
    case True
    have u: "entity_upsert_row a t = t @ [entity_new a (length t)]"
      by (rule upsert_row_null[OF True])
    have "\<And>c. c \<in> set cs \<Longrightarrow> e_business_name c \<noteq> None \<Longrightarrow> settled c (t @ [entity_new a (length t)])"
      using Cons.prems True by (intro settled_append_null) auto
    from Cons.IH[OF this] u True show ?thesis by simp
  next
    case False
    have u: "entity_upsert_row a t = t" using Cons.prems False by (intro settled_idem) auto
    have "\<And>c. c \<in> set cs \<Longrightarrow> e_business_name c \<noteq> None \<Longrightarrow> settled c t"
      using Cons.prems by auto
    from Cons.IH[OF this] u False show ?thesis by auto
  qed
qed

lemma null_rows_bname: "x \<in> set (null_rows n cs) \<Longrightarrow> e_business_name x = None"
  by (induction cs arbitrary: n) (auto split: if_splits)

lemma filter_null_rows: "filter (\<lambda>e. e_business_name e \<noteq> None) (null_rows n cs) = []"
  using null_rows_bname by (auto simp: filter_empty_conv)

lemma length_null_rows:
  "length (null_rows n cs) = length (filter (\<lambda>c. e_business_name c = None) cs)"
  by (induction cs arbitrary: n) auto

lemma entity_rows_distinct: "distinct (map entity_key (entity_rows st))"
  unfolding entity_rows_def by (rule distinct_distinct_on)

lemma entities_upsert_twice:
  "entities_upsert st (entities_upsert st tbl)
     = entities_upsert st tbl @ null_rows (length (entities_upsert st tbl)) (entity_rows st)"
  unfolding entities_upsert_def
  by (rule foldl_entities_second) (rule foldl_entities_all_settled[OF entity_rows_distinct])

lemma upsert_dob_permits_parts:
  assumes "upsert_dob_permits pg rows s = Inr (res, s')"
  shows "\<exists>st ds ps. stage pg rows = Inr st \<and> map_err (permit_detail_of pg) st = Inr ds
          \<and> map_err (permit_of pg) st = Inr ps \<and> distinct (map p_id ps)
          \<and> dob_buildings s' = buildings_upsert st (dob_buildings s)
          \<and> dob_permit_details s' = foldl (\<lambda>t r. upsert_by d_permit_number r t) (dob_permit_details s)
                (distinct_on d_permit_number (List.map_filter (\<lambda>d. d) ds))
          \<and> dob_entities s' = entities_upsert st (dob_entities s)
          \<and> dob_permits s' = foldl (\<lambda>t r. upsert_by p_id (populate_geom_from_coords r) t) (dob_permits s) ps
          \<and> dataset_sync_state s' = dataset_sync_state s \<and> mvt_cache s' = mvt_cache s
          \<and> inserted res = length (filter (\<lambda>r. \<not> permit_exists (dob_permits s) r) ps)
          \<and> updated res = length (filter (permit_exists (dob_permits s)) ps)
          \<and> max_updated res = sql_max (map stg_updated_at st)"
proof -
  from assms obtain st where st: "stage pg rows = Inr st"
    by (cases "stage pg rows") (auto simp: upsert_dob_permits_def)
  from assms st obtain dt where dt: "permit_details_upsert pg st (dob_permit_details s) = Inr dt"
    by (cases "permit_details_upsert pg st (dob_permit_details s)") (auto simp: upsert_dob_permits_def)
  from dt obtain ds where ds: "map_err (permit_detail_of pg) st = Inr ds"
    by (cases "map_err (permit_detail_of pg) st") (auto simp: permit_details_upsert_def)
  from dt ds have dt': "dt = foldl (\<lambda>t r. upsert_by d_permit_number r t) (dob_permit_details s)
                (distinct_on d_permit_number (List.map_filter (\<lambda>d. d) ds))"
    by (simp add: permit_details_upsert_def)
  from assms st dt obtain pt ins upd where pu: "permits_upsert pg st (dob_permits s) = Inr (pt, ins, upd)"
    by (cases "permits_upsert pg st (dob_permits s)") (auto simp: upsert_dob_permits_def)
  from pu obtain ps where ps: "map_err (permit_of pg) st = Inr ps"
    by (cases "map_err (permit_of pg) st") (auto simp: permits_upsert_def)
  from pu ps have d: "distinct (map p_id ps)" and
    pt: "pt = foldl (\<lambda>t r. upsert_by p_id (populate_geom_from_coords r) t) (dob_permits s) ps" and
    ins: "ins = length (filter (\<lambda>r. \<not> permit_exists (dob_permits s) r) ps)" and
    upd: "upd = length (filter (permit_exists (dob_permits s)) ps)"
    by (auto simp: permits_upsert_def split: if_splits)
  from assms st dt pu have "dob_permits s' = pt" "inserted res = ins" "updated res = upd"
     "max_updated res = sql_max (map stg_updated_at st)"
     "dob_buildings s' = buildings_upsert st (dob_buildings s)"
     "dob_permit_details s' = dt" "dob_entities s' = entities_upsert st (dob_entities s)"
     "dataset_sync_state s' = dataset_sync_state s" "mvt_cache s' = mvt_cache s"
    by (auto simp: upsert_dob_permits_def)
  with st ds ps d pt ins upd dt' show ?thesis by auto
qed

lemma upsert_dob_permits_Inr:
  assumes "stage pg rows = Inr st" and "map_err (permit_detail_of pg) st = Inr ds"
      and "map_err (permit_of pg) st = Inr ps" and "distinct (map p_id ps)"
  shows "upsert_dob_permits pg rows s =
     Inr (\<lparr>inserted = length (filter (\<lambda>r. \<not> permit_exists (dob_permits s) r) ps),
           updated = length (filter (permit_exists (dob_permits s)) ps),
           max_updated = sql_max (map stg_updated_at st)\<rparr>,
          s\<lparr>dob_buildings := buildings_upsert st (dob_buildings s),
            dob_permit_details := foldl (\<lambda>t r. upsert_by d_permit_number r t) (dob_permit_details s)
                (distinct_on d_permit_number (List.map_filter (\<lambda>d. d) ds)),
            dob_entities := entities_upsert st (dob_entities s),
            dob_permits := foldl (\<lambda>t r. upsert_by p_id (populate_geom_from_coords r) t) (dob_permits s) ps\<rparr>)"
  using assms by (simp add: upsert_dob_permits_def permit_details_upsert_def permits_upsert_def)

lemma permits_foldl_twice:
  assumes "distinct (map p_id ps)"
  shows "foldl (\<lambda>t r. upsert_by p_id (populate_geom_from_coords r) t)
           (foldl (\<lambda>t r. upsert_by p_id (populate_geom_from_coords r) t) tbl ps) ps
         = foldl (\<lambda>t r. upsert_by p_id (populate_geom_from_coords r) t) tbl ps"
proof -
  have m: "map p_id (map populate_geom_from_coords ps) = map p_id ps"
    by (simp add: populate_id)
  have "distinct (map p_id (map populate_geom_from_coords ps))" using assms unfolding m .
  from foldl_upsert_twice[OF this, of tbl] show ?thesis
    unfolding foldl_map[of "upsert_by p_id" populate_geom_from_coords] .
qed

lemma permits_foldl_exists:
  assumes "distinct (map p_id ps)" and "r \<in> set ps"
  shows "permit_exists (foldl (\<lambda>t r. upsert_by p_id (populate_geom_from_coords r) t) tbl ps) r"
proof -
  have m: "map p_id (map populate_geom_from_coords ps) = map p_id ps"
    by (simp add: populate_id)
  have d: "distinct (map p_id (map populate_geom_from_coords ps))" using assms(1) unfolding m .
  have "populate_geom_from_coords r \<in> set (map populate_geom_from_coords ps)" using assms(2) by simp
  from foldl_upsert_all_first[OF d this, of tbl]
  have "first_is p_id (populate_geom_from_coords r)
          (foldl (\<lambda>t r. upsert_by p_id (populate_geom_from_coords r) t) tbl ps)"
    unfolding foldl_map[of "upsert_by p_id" populate_geom_from_coords] .
  from first_is_key_mem[OF this] show ?thesis
    by (simp add: permit_exists_def populate_id)
qed

lemma buildings_upsert_twice:
  "buildings_upsert st (buildings_upsert st tbl) = buildings_upsert st tbl"
  unfolding buildings_upsert_def by (rule foldl_upsert_twice) (rule distinct_distinct_on)

lemma unique_upsert_row:
  assumes "entities_unique tbl"
  shows "entities_unique (entity_upsert_row c tbl)"
proof (cases "list_ex (entity_conflict c) tbl")
  case True
  let ?f = "\<lambda>x. if entity_conflict c x then entity_set_excluded c x else x"
  have b: "\<And>x. e_business_name (?f x) = e_business_name x" by simp
  have k: "\<And>x. entity_key (?f x) = entity_key x" by simp
  have "filter (\<lambda>e. e_business_name e \<noteq> None) (map ?f tbl)
          = map ?f (filter (\<lambda>e. e_business_name e \<noteq> None) tbl)"
    unfolding filter_map o_def b ..
  then have "map entity_key (filter (\<lambda>e. e_business_name e \<noteq> None) (map ?f tbl))
          = map entity_key (filter (\<lambda>e. e_business_name e \<noteq> None) tbl)"
    by (simp add: o_def k del: not_None_eq)
  with assms True show ?thesis by (simp add: entities_unique_def entity_upsert_row_def del: not_None_eq)
next
  case False
  show ?thesis
  proof (cases "e_business_name c")
    case None
    with assms False show ?thesis by (simp add: entities_unique_def entity_upsert_row_def)
  next
    case (Some b)
    have "entity_key c \<notin> entity_key ` set tbl"
      using False Some by (auto simp: list_ex_iff entity_conflict_def)
    then have "entity_key c \<notin> entity_key ` set (filter (\<lambda>e. e_business_name e \<noteq> None) tbl)"
      by auto
    with assms False Some show ?thesis
      by (simp add: entities_unique_def entity_upsert_row_def del: not_None_eq)
  qed
qed

lemma unique_entities_upsert:
  "entities_unique tbl \<Longrightarrow> entities_unique (entities_upsert st tbl)"
proof -
  have "\<And>t. entities_unique t \<Longrightarrow> entities_unique (foldl (\<lambda>t c. entity_upsert_row c t) t cs)" for cs
    by (induction cs) (auto simp: unique_upsert_row)
  then show "entities_unique tbl \<Longrightarrow> entities_unique (entities_upsert st tbl)"
    unfolding entities_upsert_def by blast
qed

lemma distinct_count_one:
  "distinct (map f xs) \<Longrightarrow> x \<in> set xs \<Longrightarrow> length (filter (\<lambda>y. f y = f x) xs) = 1"
proof (induction xs)
  case Nil
  then show ?case by simp
next
  case (Cons a xs)
  show ?case
  proof (cases "f a = f x")
    case True
    with Cons.prems have "\<forall>y\<in>set xs. f y \<noteq> f x" by (metis distinct.simps(2) image_eqI list.simps(9) set_map)
    then have "filter (\<lambda>y. f y = f x) xs = []" by (simp add: filter_empty_conv)
    with True show ?thesis by simp
  next
    case False
    with Cons show ?thesis by auto
  qed
qed

lemma distinct_on_first_sorted:
  "sorted (map f xs) \<Longrightarrow> x \<in> set (distinct_on k xs) \<Longrightarrow> y \<in> set xs \<Longrightarrow> k y = k x \<Longrightarrow> f x \<le> f y"
proof (induction k xs rule: distinct_on.induct)
  case (1 k)
  then show ?case by simp
next
  case (2 k a xs)
  show ?case
  proof (cases "x = a")
    case True
    with "2.prems" show ?thesis by auto
  next
    case False
    with "2.prems" have xin: "x \<in> set (distinct_on k (filter (\<lambda>y. k y \<noteq> k a) xs))" by simp
    then have "x \<in> set (filter (\<lambda>y. k y \<noteq> k a) xs)" using set_distinct_on by fastforce
    then have kx: "k x \<noteq> k a" by simp
    with "2.prems" have yin: "y \<in> set (filter (\<lambda>y. k y \<noteq> k a) xs)" by auto
    have "sorted (map f (filter (\<lambda>y. k y \<noteq> k a) xs))"
      using "2.prems"(1) by (simp add: sorted_filter)
    from "2.IH"[OF this xin yin "2.prems"(4)] show ?thesis .
  qed
qed

lemma entity_rows_winner:
  assumes "w \<in> set (entity_rows st)" and "c \<in> set (entity_candidates st)"
      and "entity_key c = entity_key w"
  shows "entity_order w \<le> entity_order c"
proof -
  have s: "sorted (map entity_order (sort_key entity_order (entity_candidates st)))"
    by (rule sorted_sort_key)
  have c: "c \<in> set (sort_key entity_order (entity_candidates st))" using assms(2) by simp
  from distinct_on_first_sorted[OF s _ c assms(3)] assms(1) show ?thesis
    by (simp add: entity_rows_def)
qed

lemma entity_rows_key:
  assumes "c \<in> set (entity_candidates st)"
  shows "\<exists>w \<in> set (entity_rows st). entity_key w = entity_key c \<and> w \<in> set (entity_candidates st)"
proof -
  have "entity_key c \<in> set (map entity_key (sort_key entity_order (entity_candidates st)))"
    using assms by simp
  then have "entity_key c \<in> set (map entity_key (entity_rows st))"
    unfolding entity_rows_def distinct_on_keys .
  then obtain w where w: "w \<in> set (entity_rows st)" "entity_key w = entity_key c" by auto
  moreover have "w \<in> set (entity_candidates st)"
    using w(1) set_distinct_on[of entity_key "sort_key entity_order (entity_candidates st)"]
    by (auto simp: entity_rows_def)
  ultimately show ?thesis by blast
qed

lemmas upsert_eval =
  upsert_dob_permits_def stage_def stage_of_def cast_text_def cast_nonempty_def
  json_text_def demo_pg_def demo_in_def is_digit_def decimal_value_def
  permit_details_upsert_def permit_detail_of_def stg_permit_number_def coalesce_def
  permits_upsert_def permit_of_def stg_permit_issuance_date_str_def stg_bin_def
  stg_council_district_def stg_zipcode_def permit_exists_def empty_store_def
  buildings_upsert_def building_of_def List.map_filter_def entities_upsert_def
  entity_rows_def entity_candidates_def owner_present_def permittee_present_def
  nonblank_def trim_def owner_entity_def nullif_trim_def coalesce_text_def entity_order_def
  nulls_last_def entity_key_def entity_upsert_row_def entity_conflict_def entity_new_def
  populate_geom_from_coords_def

text \<open>Facts about the hex text of a tile, the rows of a tile and the two paths of the handler.\<close>

lemma hex_digit_table:
  "list_all (\<lambda>n. hex_val (hex_digit n) = Some n \<and> \<not> js_whitespace (hex_digit n)
         \<and> hex_digit n \<notin> {CHR ''-'', CHR ''+'', CHR ''x'', CHR ''X''}) [0..<16]"
  by (simp add: upt_rec hex_digit_def hex_val_def js_whitespace_def)

lemma hex_digit_props:
  assumes "n < 16"
  shows "hex_val (hex_digit n) = Some n \<and> \<not> js_whitespace (hex_digit n)
         \<and> hex_digit n \<notin> {CHR ''-'', CHR ''+'', CHR ''x'', CHR ''X''}"
proof -
  from assms have "n \<in> set [0..<16]" by simp
  with hex_digit_table show ?thesis unfolding list_all_iff by blast
qed

lemma parseInt16_digits:
  assumes "h < 16" and "l < 16"
  shows "parseInt16 [hex_digit h, hex_digit l] = Some (int (16 * h + l))"
proof -
  note ph = hex_digit_props[OF assms(1)] and pl = hex_digit_props[OF assms(2)]
  from ph pl show ?thesis
    by (simp add: parseInt16_def Let_def hex_value_def)
qed

lemma byte_round_trip:
  "to_uint8 (parseInt16 [hex_digit (unat w div 16), hex_digit (unat w mod 16)]) = (w :: 8 word)"
proof -
  have "unat w < 256" using unsigned_less[of w] by simp
  then have h: "unat w div 16 < 16" by simp
  have l: "unat w mod 16 < 16" by simp
  have "16 * (unat w div 16) + unat w mod 16 = unat w" by simp
  with parseInt16_digits[OF h l] show ?thesis by (simp add: to_uint8_def)
qed

lemma hex_pairs_round_trip:
  "hex_pairs (concat (map (\<lambda>w. [hex_digit (unat w div 16), hex_digit (unat w mod 16)]) b)) = b"
  by (induction b) (simp_all add: byte_round_trip)

lemma hex_round_trip: "hexToArrayBuffer (bytea_out b) = b"
  by (simp add: hexToArrayBuffer_def bytea_out_def hex_pairs_round_trip)

lemma bytea_out_empty: "(bytea_out b = [backslash, CHR ''x'']) = (b = [])"
  by (cases b) (simp_all add: bytea_out_def)

lemma bytea_out_nonempty: "bytea_out b \<noteq> []"
  by (simp add: bytea_out_def)

lemma rpc_data_empty_bytes: "rpc_data_empty (JString (bytea_out b)) = (b = [])"
  by (simp add: rpc_data_empty_def bytea_out_empty bytea_out_nonempty)

lemma respond_tile_empty: "respond_tile req [] = empty_tile"
  by (simp add: respond_tile_def)

lemma excluded_columns:
  assumes "entity_set_excluded w e = e"
  shows "e_full_name e = e_full_name w \<and> e_license_type e = e_license_type w
         \<and> e_license_number e = e_license_number w \<and> e_phone e = e_phone w
         \<and> e_address e = e_address w \<and> e_city e = e_city w
         \<and> e_state e = e_state w \<and> e_zip e = e_zip w"
proof -
  have "e_full_name (entity_set_excluded w e) = e_full_name w"
       "e_license_type (entity_set_excluded w e) = e_license_type w"
       "e_license_number (entity_set_excluded w e) = e_license_number w"
       "e_phone (entity_set_excluded w e) = e_phone w"
       "e_address (entity_set_excluded w e) = e_address w"
       "e_city (entity_set_excluded w e) = e_city w"
       "e_state (entity_set_excluded w e) = e_state w"
       "e_zip (entity_set_excluded w e) = e_zip w"
    by (simp_all add: entity_set_excluded_def)
  then show ?thesis unfolding assms by (intro conjI)
qed

lemma mset_map_filter:
  assumes "mset xs = mset ys"
  shows "mset (List.map_filter f xs) = mset (List.map_filter f ys)"
  unfolding List.map_filter_def mset_map mset_filter assms ..

lemma date_matches_session:
  "timestamptz_to_date pg = timestamptz_to_date pg' \<Longrightarrow> date_matches pg = date_matches pg'"
  by (intro ext) (simp add: date_matches_def split: option.splits)

lemma tile_src_session:
  assumes "timestamptz_to_date pg = timestamptz_to_date pg'"
  shows "tile_src pg gis z x y d ps = tile_src pg' gis z x y d ps"
  unfolding tile_src_def date_matches_session[OF assms] ..

lemma tile_rows_mset:
  assumes "mset ps = mset ps'" and "timestamptz_to_date pg = timestamptz_to_date pg'"
  shows "mset (mvtgeom gis z x y (tile_src pg gis z x y d ps))
         = mset (mvtgeom gis z x y (tile_src pg' gis z x y d ps'))"
proof -
  have "mset (tile_src pg gis z x y d ps) = mset (tile_src pg gis z x y d ps')"
    unfolding tile_src_def by (rule mset_map_filter[OF assms(1)])
  then have "mset (mvtgeom gis z x y (tile_src pg gis z x y d ps))
         = mset (mvtgeom gis z x y (tile_src pg gis z x y d ps'))"
    unfolding mvtgeom_def by simp
  then show ?thesis unfolding tile_src_session[OF assms(2)] .
qed

lemma map_filter_if:
  "(\<And>x. g x = (if P x then f x else None)) \<Longrightarrow> List.map_filter f (filter P xs) = List.map_filter g xs"
  by (induction xs) (auto simp: List.map_filter_def)

lemma tile_src_of_dated:
  "tile_src pg gis z x y (Some day) ps
     = tile_src pg gis z x y None
         (filter (\<lambda>p. map_option (timestamptz_to_date pg) (p_permit_issuance_date p) = Some day) ps)"
  unfolding tile_src_def
  by (rule map_filter_if[symmetric]) (auto simp: date_matches_def split: option.splits)

lemma serve_tile_miss:
  assumes "cache_lookup (''permits'', z, x, y, dateStr, dateStr) w = (None, w1)"
      and "pop_fault (log_event (TileRpc z x y (Some dateStr)) w1) = (False, w2)"
      and "dob_permit_tiles pg gis z x y (Some dateStr) (db w) = Inr bytes"
  shows "serve_tile env pg gis req z x y dateStr w
           = (respond_tile req bytes,
              if bytes = [] then w2
              else cache_write env (''permits'', z, x, y, dateStr, dateStr) (bytea_out bytes) w2)"
proof -
  from cache_lookup_frame[OF assms(1)] have d1: "db w1 = db w" by simp
  from pop_fault_frame[OF assms(2)] have d2: "db w2 = db w1" by (simp add: log_event_def)
  have rpc: "tile_rpc pg gis z x y dateStr w1 = (Inr (JString (bytea_out bytes)), w2)"
    using assms(2,3) d1 d2 by (simp add: tile_rpc_def)
  show ?thesis
    unfolding serve_tile_def Let_def assms(1) using rpc
    by (simp add: rpc_data_empty_bytes hex_round_trip respond_tile_empty)
qed

lemma serve_tile_hit:
  assumes "cache_lookup (''permits'', z, x, y, dateStr, dateStr) w = (Some mvt, w1)"
  shows "serve_tile env pg gis req z x y dateStr w = (respond_tile req (hexToArrayBuffer mvt), w1)"
  unfolding serve_tile_def Let_def assms by simp

lemma respond_tile_body:
  "body (respond_tile req bytes) = TileBody bytes \<or> status (respond_tile req bytes) = 304"
  by (simp add: respond_tile_def empty_tile_def Let_def)

lemmas tile_eval =
  tiles_handler_def validate_request_def tile_get_def demo_env_def falsy_def
  path_parts_def parseInt10_def js_whitespace_def is_digit_def decimal_value_def
  date_regex_def coalesce_text_def serve_tile_def cache_lookup_def pop_fault_def
  log_event_def quiet_world_def cache_single_def cache_key_of_def tile_rpc_def
  rpc_data_empty_def bytea_out_def hex_digit_def hexToArrayBuffer_def backslash_def
  parseInt16_def to_uint8_def hex_value_def hex_val_def Let_def cache_write_def
  respond_tile_def empty_tile_def
  dob_permit_tiles_def cast_text_def demo_pg_def demo_date_in_def
  tile_src_def List.map_filter_def date_matches_def
  demo_permit_def populate_geom_from_coords_def demo_gis_def listing_gis_def mvtgeom_def

text \<open>Facts about the ingestion engine.\<close>

lemma no_state_write_simps [simp]:
  "no_state_write []"
  "no_state_write (es @ es') = (no_state_write es \<and> no_state_write es')"
  "no_state_write [PageRequest q]" "no_state_write [UpsertPage rs]"
  "no_state_write [ReadWatermark]" "no_state_write [Preflight t]"
  "\<not> no_state_write [WriteSyncState v]"
  by (simp_all add: no_state_write_def)

lemma advance_inv: "loop_inv start st \<Longrightarrow> loop_inv start (advance result n st)"
  by (auto simp: loop_inv_def advance_def Let_def split: option.splits)

lemma upsert_sync_state:
  "upsert_dob_permits pg rows s = Inr (res, s') \<Longrightarrow> dataset_sync_state s' = dataset_sync_state s"
  using upsert_dob_permits_parts by blast

lemma upsert_rpc_effect:
  assumes "upsert_rpc pg rs w = (r, w')"
  shows "dataset_sync_state (db w') = dataset_sync_state (db w)
         \<and> trace w' = trace w @ [UpsertPage rs]"
proof -
  obtain f w1 where pf: "pop_fault (log_event (UpsertPage rs) w) = (f, w1)"
    by (cases "pop_fault (log_event (UpsertPage rs) w)")
  from pop_fault_frame[OF pf] have w1: "db w1 = db w" "trace w1 = trace w @ [UpsertPage rs]"
    by (simp_all add: log_event_def)
  show ?thesis
  proof (cases f)
    case True
    with assms pf have "w' = w1" by (simp add: upsert_rpc_def)
    with w1 show ?thesis by simp
  next
    case False
    show ?thesis
    proof (cases "upsert_dob_permits pg rs (db w1)")
      case (Inl e)
      with assms pf False have "w' = w1" by (simp add: upsert_rpc_def)
      with w1 show ?thesis by simp
    next
      case (Inr p)
      obtain res s' where p: "p = (res, s')" by (cases p)
      with assms pf False Inr have "w' = w1\<lparr>db := s'\<rparr>" by (simp add: upsert_rpc_def)
      moreover have "dataset_sync_state s' = dataset_sync_state (db w1)"
        using Inr p by (intro upsert_sync_state) simp
      ultimately show ?thesis using w1 by simp
    qed
  qed
qed

lemma sync_page_effect:
  assumes "sync_page pg ps until st w = (r, w')"
  shows "dataset_sync_state (db w') = dataset_sync_state (db w)
         \<and> (\<exists>es. trace w' = trace w @ es \<and> no_state_write es)
         \<and> (\<forall>b st'. r = Inr (b, st') \<longrightarrow> loop_inv start st \<longrightarrow> loop_inv start st')"
proof -
  define q where "q = \<lparr>q_where_gt = newestSeen st, q_where_le = until, q_limit = ps, q_offset = page st * ps\<rparr>"
  define w0 where "w0 = log_event (PageRequest q) w"
  define ans where "ans = soql_rows pg q (socrata w)"
  have w0: "db w0 = db w" "trace w0 = trace w @ [PageRequest q]"
    by (simp_all add: w0_def log_event_def)
  obtain fr w1 where fr: "fetch_retry 3 (BodyRecords ans) w0 = (fr, w1)"
    by (cases "fetch_retry 3 (BodyRecords ans) w0")
  from fetch_retry_frame[OF fr] w0 have w1: "db w1 = db w" "trace w1 = trace w @ [PageRequest q]"
    by simp_all
  have sp: "sync_page pg ps until st w =
     (case (fr, w1) of
        (Inl e, w1) \<Rightarrow> (Inl e, w1)
      | (Inr BodyInvalid, w1) \<Rightarrow> (Inl JsonParseError, w1)
      | (Inr BodyNotArray, w1) \<Rightarrow> (Inr (False, st), w1)
      | (Inr (BodyRecords records), w1) \<Rightarrow>
          if records = [] then (Inr (False, st), w1)
          else
            (case upsert_rpc pg records w1 of
               (Inl e, w2) \<Rightarrow> (Inl e, w2)
             | (Inr result, w2) \<Rightarrow>
                 (let st' = advance result (length records) st in
                  if length records < ps then (Inr (False, st'), w2)
                  else (Inr (True, st'\<lparr>page := page st' + 1\<rparr>), w2))))"
    unfolding sync_page_def Let_def q_def[symmetric] w0_def[symmetric] ans_def[symmetric] fr ..
  have quiet: "w' = w1 \<Longrightarrow> (\<forall>b st'. r = Inr (b, st') \<longrightarrow> st' = st) \<Longrightarrow> ?thesis"
    using w1 by auto
  show ?thesis
  proof (cases fr)
    case (Inl e)
    with assms sp show ?thesis by (intro quiet) auto
  next
    case (Inr body)
    show ?thesis
    proof (cases body)
      case BodyInvalid
      with assms sp Inr show ?thesis by (intro quiet) auto
    next
      case BodyNotArray
      with assms sp Inr show ?thesis by (intro quiet) auto
    next
      case (BodyRecords records)
      show ?thesis
      proof (cases "records = []")
        case True
        with assms sp Inr BodyRecords show ?thesis by (intro quiet) auto
      next
        case False
        obtain ur w2 where up: "upsert_rpc pg records w1 = (ur, w2)"
          by (cases "upsert_rpc pg records w1")
        note e2 = upsert_rpc_effect[OF up]
        have w2: "dataset_sync_state (db w2) = dataset_sync_state (db w)"
          "trace w2 = trace w @ [PageRequest q, UpsertPage records]"
          using e2 w1 by simp_all
        have tr: "\<exists>es. trace w2 = trace w @ es \<and> no_state_write es"
          using w2(2) by (simp add: no_state_write_def)
        show ?thesis
        proof (cases ur)
          case (Inl e)
          with assms sp Inr BodyRecords False up have "w' = w2" "r = Inl e" by auto
          with w2 tr show ?thesis by simp
        next
          case (Inr result)
          with assms sp \<open>fr = Inr body\<close> BodyRecords False up have w': "w' = w2" and
            r: "\<exists>b. r = Inr (b, advance result (length records) st)
                    \<or> r = Inr (b, (advance result (length records) st)
                                   \<lparr>page := page (advance result (length records) st) + 1\<rparr>)"
            by (auto simp: Let_def split: if_splits)
          have i: "loop_inv start st \<Longrightarrow> loop_inv start (advance result (length records) st)"
            by (rule advance_inv)
          have i': "\<And>x n. loop_inv start (x\<lparr>page := n\<rparr>) = loop_inv start x"
            by (simp add: loop_inv_def)
          from r i i' have "\<forall>b st'. r = Inr (b, st') \<longrightarrow> loop_inv start st \<longrightarrow> loop_inv start st'"
            by auto
          with w' w2 tr show ?thesis by simp
        qed
      qed
    qed
  qed
qed

lemma sync_loop_effect:
  "sync_loop pg ps until st w = (r, w') \<Longrightarrow>
     dataset_sync_state (db w') = dataset_sync_state (db w)
     \<and> (\<exists>es. trace w' = trace w @ es \<and> no_state_write es)
     \<and> (\<forall>st'. r = Inr st' \<longrightarrow> loop_inv start st \<longrightarrow> loop_inv start st')"
proof (induction pg ps until st w rule: sync_loop.induct)
  case (1 pg ps until st w)
  obtain pr w1 where sp: "sync_page pg ps until st w = (pr, w1)"
    by (cases "sync_page pg ps until st w")
  note e1 = sync_page_effect[OF sp, of start]
  show ?case
  proof (cases pr)
    case (Inl e)
    with "1.prems" sp have "r = Inl e" "w' = w1" by (simp_all add: sync_loop.simps[of pg ps until st w])
    with e1 show ?thesis by simp
  next
    case (Inr p)
    obtain go st1 where p: "p = (go, st1)" by (cases p)
    show ?thesis
    proof (cases go)
      case False
      with "1.prems" sp Inr p have "r = Inr st1" "w' = w1"
        by (simp_all add: sync_loop.simps[of pg ps until st w])
      with e1 Inr p show ?thesis by simp
    next
      case True
      with "1.prems" sp Inr p have l: "sync_loop pg ps until st1 w1 = (r, w')"
        by (simp add: sync_loop.simps[of pg ps until st w])
      from "1.IH"[OF sp[symmetric] Inr p[symmetric] True l] e1 Inr p show ?thesis
        by (auto simp: no_state_write_def)
    qed
  qed
qed

lemma read_watermark_effect:
  assumes "read_watermark mode req w = (r, w')"
  shows "db w' = db w
         \<and> (\<forall>t. r = Inr (Some t) \<longrightarrow> sq_since req = None \<longrightarrow> t = current_dob_watermark (db w))
         \<and> (r = Inr None \<longrightarrow> mode \<noteq> ''incremental'')"
proof (cases "sq_since req")
  case (Some since)
  with assms show ?thesis by (auto simp: read_watermark_def)
next
  case None
  show ?thesis
  proof (cases "mode = ''incremental''")
    case False
    with assms None show ?thesis by (auto simp: read_watermark_def)
  next
    case True
    obtain f w1 where pf: "pop_fault (log_event ReadWatermark w) = (f, w1)"
      by (cases "pop_fault (log_event ReadWatermark w)")
    from pop_fault_frame[OF pf] have w1: "db w1 = db w" by (simp add: log_event_def)
    from assms None True pf have "w' = w1"
      "r = Inl WatermarkFetchFailed \<or> r = Inr (Some (current_dob_watermark (db w1)))"
      by (cases f; simp add: read_watermark_def)+
    with w1 show ?thesis by auto
  qed
qed

lemma preflight_effect:
  assumes "preflight pg t w = (r, w')"
  shows "db w' = db w"
proof -
  obtain out w1 where f: "fetch (preflight_answer pg t (socrata w)) (log_event (Preflight t) w) = (out, w1)"
    by (cases "fetch (preflight_answer pg t (socrata w)) (log_event (Preflight t) w)")
  from fetch_frame[OF f] have w1: "db w1 = db w" by (simp add: log_event_def)
  from assms f have "w' = w1"
    unfolding preflight_def
    by (cases out) (auto split: if_splits json_body.splits)
  with w1 show ?thesis by simp
qed

lemma write_sync_state_effect:
  assumes "write_sync_state env mode req st w = (r, w')"
  shows "(r \<noteq> Inr () \<or> sq_since req \<noteq> None \<or> sq_until req \<noteq> None
            \<longrightarrow> dataset_sync_state (db w') = dataset_sync_state (db w))
         \<and> (dataset_sync_state (db w') = dataset_sync_state (db w)
             \<or> (\<exists>v. dataset_sync_state (db w')
                      = upsert_by fst (''ipu4-2q9a'', v) (dataset_sync_state (db w))
                    \<and> (maxUpdatedAt st = Some v
                        \<or> (mode = ''historical'' \<and> maxUpdatedAt st = None \<and> v = now env))))"
proof (cases "sq_since req = None \<and> sq_until req = None
         \<and> (maxUpdatedAt st \<noteq> None \<or> mode = ''historical'')")
  case False
  with assms have "w' = w" by (auto simp: write_sync_state_def)
  then show ?thesis by simp
next
  case True
  define v where "v = (case maxUpdatedAt st of Some m \<Rightarrow> m | None \<Rightarrow> now env)"
  obtain f w1 where pf: "pop_fault (log_event (WriteSyncState v) w) = (f, w1)"
    by (cases "pop_fault (log_event (WriteSyncState v) w)")
  from pop_fault_frame[OF pf] have w1: "db w1 = db w" by (simp add: log_event_def)
  have vv: "maxUpdatedAt st = Some v \<or> (mode = ''historical'' \<and> maxUpdatedAt st = None \<and> v = now env)"
    using True by (cases "maxUpdatedAt st") (auto simp: v_def)
  show ?thesis
  proof (cases f)
    case True
    with assms \<open>sq_since req = None \<and> sq_until req = None
         \<and> (maxUpdatedAt st \<noteq> None \<or> mode = ''historical'')\<close> pf
    have "w' = w1" "r = Inl StateUpdateFailed"
      by (simp_all add: write_sync_state_def v_def[symmetric] del: not_None_eq)
    with w1 show ?thesis by simp
  next
    case False
    with assms True pf
    have "w' = w1\<lparr>db := (db w1)\<lparr>dataset_sync_state :=
                            upsert_by fst (''ipu4-2q9a'', v) (dataset_sync_state (db w1))\<rparr>\<rparr>"
      and "r = Inr ()"
      by (simp_all add: write_sync_state_def v_def[symmetric] del: not_None_eq)
    with w1 vv True show ?thesis by auto
  qed
qed

lemma run_pages_effect:
  assumes "run_pages ps env pg mode req watermark w = (resp, w')"
  shows "sr_mode resp = mode
     \<and> (\<not> sr_success resp \<or> sq_since req \<noteq> None \<or> sq_until req \<noteq> None
            \<longrightarrow> dataset_sync_state (db w') = dataset_sync_state (db w))
     \<and> (dataset_sync_state (db w') = dataset_sync_state (db w)
         \<or> (\<exists>v. dataset_sync_state (db w')
                  = upsert_by fst (''ipu4-2q9a'', v) (dataset_sync_state (db w))
                \<and> (mode \<noteq> ''historical'' \<longrightarrow> (case watermark of None \<Rightarrow> 0 | Some t \<Rightarrow> t) < v)
                \<and> (sr_lastSyncedUpdatedAt resp = Some v
                    \<or> (mode = ''historical'' \<and> sr_lastSyncedUpdatedAt resp = None \<and> v = now env))))"
proof -
  define start where "start = (case watermark of None \<Rightarrow> 0 | Some t \<Rightarrow> t)"
  define st0 where "st0 = \<lparr>page = 0, totalProcessed = 0, totalInserted = 0, totalUpdated = 0,
              newestSeen = start, maxUpdatedAt = None\<rparr>"
  have i0: "loop_inv start st0" by (simp add: loop_inv_def st0_def)
  obtain lr w1 where l: "sync_loop pg ps (sq_until req) st0 w = (lr, w1)"
    by (cases "sync_loop pg ps (sq_until req) st0 w")
  note le = sync_loop_effect[OF l, of start]
  have rp: "run_pages ps env pg mode req watermark w =
     (case (lr, w1) of
        (Inl e, w1) \<Rightarrow> (sync_failure mode e, w1)
      | (Inr st, w1) \<Rightarrow>
          (case write_sync_state env mode req st w1 of
             (Inl e, w2) \<Rightarrow> (sync_failure mode e, w2)
           | (Inr u, w2) \<Rightarrow>
               (\<lparr>sr_status = 200, sr_success = True, sr_mode = mode,
                 sr_totalProcessed = totalProcessed st,
                 sr_totalInserted = totalInserted st,
                 sr_totalUpdated = totalUpdated st,
                 sr_lastSyncedUpdatedAt = maxUpdatedAt st,
                 sr_error = None\<rparr>, w2)))"
    unfolding run_pages_def start_def[symmetric] st0_def[symmetric] l ..
  show ?thesis
  proof (cases lr)
    case (Inl e)
    with assms rp have "resp = sync_failure mode e" "w' = w1" by simp_all
    with le show ?thesis by (simp add: sync_failure_def)
  next
    case (Inr st)
    with le i0 have inv: "loop_inv start st" by simp
    obtain wr w2 where ws: "write_sync_state env mode req st w1 = (wr, w2)"
      by (cases "write_sync_state env mode req st w1")
    note we = write_sync_state_effect[OF ws]
    have d1: "dataset_sync_state (db w1) = dataset_sync_state (db w)" using le by simp
    have gt: "\<And>v. maxUpdatedAt st = Some v \<Longrightarrow> start < v"
      using inv by (simp add: loop_inv_def)
    show ?thesis
    proof (cases wr)
      case (Inl e)
      with assms rp Inr ws have "resp = sync_failure mode e" "w' = w2" by simp_all
      moreover from we Inl have "dataset_sync_state (db w2) = dataset_sync_state (db w1)" by simp
      ultimately show ?thesis using d1 by (simp add: sync_failure_def)
    next
      case (Inr u)
      with assms rp \<open>lr = Inr st\<close> ws have
        resp: "resp = \<lparr>sr_status = 200, sr_success = True, sr_mode = mode,
                 sr_totalProcessed = totalProcessed st,
                 sr_totalInserted = totalInserted st,
                 sr_totalUpdated = totalUpdated st,
                 sr_lastSyncedUpdatedAt = maxUpdatedAt st,
                 sr_error = None\<rparr>" and w': "w' = w2" by simp_all
      from we have a: "sq_since req \<noteq> None \<or> sq_until req \<noteq> None
            \<longrightarrow> dataset_sync_state (db w2) = dataset_sync_state (db w1)" by blast
      from we have b: "dataset_sync_state (db w2) = dataset_sync_state (db w1)
             \<or> (\<exists>v. dataset_sync_state (db w2)
                      = upsert_by fst (''ipu4-2q9a'', v) (dataset_sync_state (db w1))
                    \<and> (maxUpdatedAt st = Some v
                        \<or> (mode = ''historical'' \<and> maxUpdatedAt st = None \<and> v = now env)))"
        by (rule conjunct2)
      from b show ?thesis
      proof
        assume "dataset_sync_state (db w2) = dataset_sync_state (db w1)"
        with resp w' d1 show ?thesis by simp
      next
        assume "\<exists>v. dataset_sync_state (db w2)
                      = upsert_by fst (''ipu4-2q9a'', v) (dataset_sync_state (db w1))
                    \<and> (maxUpdatedAt st = Some v
                        \<or> (mode = ''historical'' \<and> maxUpdatedAt st = None \<and> v = now env))"
        then obtain v where v: "dataset_sync_state (db w2)
                      = upsert_by fst (''ipu4-2q9a'', v) (dataset_sync_state (db w1))"
          "maxUpdatedAt st = Some v
                        \<or> (mode = ''historical'' \<and> maxUpdatedAt st = None \<and> v = now env)"
          by (elim exE conjE)
        have g: "mode \<noteq> ''historical'' \<longrightarrow> start < v" using v(2) gt by auto
        have c1: "sr_mode resp = mode" using resp by simp
        have c2: "\<not> sr_success resp \<or> sq_since req \<noteq> None \<or> sq_until req \<noteq> None
            \<longrightarrow> dataset_sync_state (db w') = dataset_sync_state (db w)"
          using resp a w' d1 by simp
        have c3: "dataset_sync_state (db w')
                  = upsert_by fst (''ipu4-2q9a'', v) (dataset_sync_state (db w))"
          using v(1) w' d1 by simp
        have c4: "sr_lastSyncedUpdatedAt resp = Some v
                    \<or> (mode = ''historical'' \<and> sr_lastSyncedUpdatedAt resp = None \<and> v = now env)"
          using v(2) resp by simp
        from c3 g c4 have "\<exists>v. dataset_sync_state (db w')
                  = upsert_by fst (''ipu4-2q9a'', v) (dataset_sync_state (db w))
                \<and> (mode \<noteq> ''historical'' \<longrightarrow> start < v)
                \<and> (sr_lastSyncedUpdatedAt resp = Some v
                    \<or> (mode = ''historical'' \<and> sr_lastSyncedUpdatedAt resp = None \<and> v = now env))"
          by (intro exI[of _ v] conjI)
        with c1 c2 show ?thesis unfolding start_def by (intro conjI disjI2)
      qed
    qed
  qed
qed

lemma outcome_unchanged:
  "dataset_sync_state s' = dataset_sync_state s \<Longrightarrow> sync_state_outcome env req s resp s'"
  by (simp add: sync_state_outcome_def)

lemma run_pages_outcome:
  assumes "run_pages ps env pg mode req watermark w1 = (resp, w')"
      and "db w1 = db w"
      and "mode = ''incremental'' \<Longrightarrow> sq_since req = None
             \<Longrightarrow> watermark = Some (current_dob_watermark (db w))"
  shows "sync_state_outcome env req (db w) resp (db w')"
proof -
  note e = run_pages_effect[OF assms(1)]
  from e have m: "sr_mode resp = mode" by (rule conjunct1)
  from e have a: "\<not> sr_success resp \<or> sq_since req \<noteq> None \<or> sq_until req \<noteq> None
            \<longrightarrow> dataset_sync_state (db w') = dataset_sync_state (db w1)" by blast
  from e have b: "dataset_sync_state (db w') = dataset_sync_state (db w1)
         \<or> (\<exists>v. dataset_sync_state (db w')
                  = upsert_by fst (''ipu4-2q9a'', v) (dataset_sync_state (db w1))
                \<and> (mode \<noteq> ''historical'' \<longrightarrow> (case watermark of None \<Rightarrow> 0 | Some t \<Rightarrow> t) < v)
                \<and> (sr_lastSyncedUpdatedAt resp = Some v
                    \<or> (mode = ''historical'' \<and> sr_lastSyncedUpdatedAt resp = None \<and> v = now env)))"
    by blast
  show ?thesis
  proof (cases "sq_since req \<noteq> None \<or> dataset_sync_state (db w') = dataset_sync_state (db w1)")
    case True
    with a have "dataset_sync_state (db w') = dataset_sync_state (db w)"
      using assms(2) by auto
    then show ?thesis by (rule outcome_unchanged)
  next
    case False
    then have sn: "sq_since req = None" by simp
    from False b obtain v where v:
      "dataset_sync_state (db w') = upsert_by fst (''ipu4-2q9a'', v) (dataset_sync_state (db w1))"
      "mode \<noteq> ''historical'' \<longrightarrow> (case watermark of None \<Rightarrow> 0 | Some t \<Rightarrow> t) < v"
      "sr_lastSyncedUpdatedAt resp = Some v
          \<or> (mode = ''historical'' \<and> sr_lastSyncedUpdatedAt resp = None \<and> v = now env)"
      by auto
    have inc: "sr_mode resp = ''incremental'' \<longrightarrow> current_dob_watermark (db w) < v"
    proof
      assume "sr_mode resp = ''incremental''"
      then have mi: "mode = ''incremental''" using m by simp
      from assms(3)[OF mi sn] v(2) mi show "current_dob_watermark (db w) < v" by simp
    qed
    have "\<exists>v. dataset_sync_state (db w') = upsert_by fst (''ipu4-2q9a'', v) (dataset_sync_state (db w))
                 \<and> (sr_mode resp = ''incremental'' \<longrightarrow> current_dob_watermark (db w) < v)
                 \<and> (sr_lastSyncedUpdatedAt resp = Some v
                     \<or> (sr_mode resp = ''historical'' \<and> sr_lastSyncedUpdatedAt resp = None
                         \<and> v = now env))"
      using v(1) v(3) inc m assms(2) by (intro exI[of _ v]) simp
    moreover have "\<not> sr_success resp \<or> sq_since req \<noteq> None \<or> sq_until req \<noteq> None
         \<longrightarrow> dataset_sync_state (db w') = dataset_sync_state (db w)"
      using a assms(2) by simp
    ultimately show ?thesis unfolding sync_state_outcome_def by (intro conjI disjI2)
  qed
qed

lemma sync_with_outcome:
  assumes "sync_with ps env pg req w = (resp, w')"
  shows "sync_state_outcome env req (db w) resp (db w')"
proof -
  define mode where "mode = (if falsy (sq_mode req) then ''incremental'' else coalesce_text (sq_mode req))"
  show ?thesis
  proof (cases "falsy (SUPABASE_URL env) \<or> falsy (SUPABASE_SERVICE_ROLE_KEY env)")
    case True
    with assms have "w' = w" by (simp add: sync_with_def Let_def)
    then show ?thesis by (intro outcome_unchanged) simp
  next
    case False
    obtain rw w1 where rw: "read_watermark mode req w = (rw, w1)"
      by (cases "read_watermark mode req w")
    note re = read_watermark_effect[OF rw]
    from re have d1: "db w1 = db w" by (rule conjunct1)
    have sw: "sync_with ps env pg req w =
        (case (rw, w1) of
           (Inl e, w1) \<Rightarrow> (sync_failure mode e, w1)
         | (Inr watermark, w1) \<Rightarrow>
             (case watermark of
                Some t \<Rightarrow>
                  if mode = ''incremental'' \<and> sq_since req = None \<and> sq_until req = None
                  then
                    (case preflight pg t w1 of
                       (Inl e, w2) \<Rightarrow> (sync_failure mode e, w2)
                     | (Inr True, w2) \<Rightarrow>
                         (\<lparr>sr_status = 200, sr_success = True, sr_mode = mode,
                           sr_totalProcessed = 0, sr_totalInserted = 0, sr_totalUpdated = 0,
                           sr_lastSyncedUpdatedAt = watermark, sr_error = None\<rparr>, w2)
                     | (Inr False, w2) \<Rightarrow> run_pages ps env pg mode req watermark w2)
                  else run_pages ps env pg mode req watermark w1
              | None \<Rightarrow> run_pages ps env pg mode req watermark w1))"
      using False unfolding sync_with_def Let_def mode_def[symmetric] rw by simp
    show ?thesis
    proof (cases rw)
      case (Inl e)
      with assms sw have "w' = w1" by simp
      with d1 show ?thesis by (intro outcome_unchanged) simp
    next
      case (Inr watermark)
      have wm: "mode = ''incremental'' \<Longrightarrow> sq_since req = None
             \<Longrightarrow> watermark = Some (current_dob_watermark (db w))"
        using re Inr by (cases watermark) auto
      show ?thesis
      proof (cases "\<exists>t. watermark = Some t \<and> mode = ''incremental'' \<and> sq_since req = None
                      \<and> sq_until req = None")
        case False
        with assms sw Inr have "run_pages ps env pg mode req watermark w1 = (resp, w')"
          by (cases watermark) (auto split: if_splits)
        from run_pages_outcome[OF this d1 wm] show ?thesis .
      next
        case True
        then obtain t where t: "watermark = Some t" "mode = ''incremental''" "sq_since req = None"
          "sq_until req = None" by blast
        obtain pr w2 where pf: "preflight pg t w1 = (pr, w2)" by (cases "preflight pg t w1")
        from preflight_effect[OF pf] d1 have d2: "db w2 = db w" by simp
        show ?thesis
        proof (cases pr)
          case (Inl e)
          with assms sw Inr t pf have "w' = w2" by simp
          with d2 show ?thesis by (intro outcome_unchanged) simp
        next
          case (Inr early)
          show ?thesis
          proof (cases early)
            case True
            with assms sw \<open>rw = Inr watermark\<close> t pf Inr have "w' = w2" by simp
            with d2 show ?thesis by (intro outcome_unchanged) simp
          next
            case False
            with assms sw \<open>rw = Inr watermark\<close> t pf Inr
            have "run_pages ps env pg mode req watermark w2 = (resp, w')" by simp
            from run_pages_outcome[OF this d2 wm] show ?thesis .
          qed
        qed
      qed
    qed
  qed
qed

lemma bind_err_InrD: "bind_err m f = Inr y \<Longrightarrow> \<exists>v. m = Inr v \<and> f v = Inr y"
  by (cases m) simp_all

lemma cast_text_stamp:
  "cast_text (timestamptz_in pg) (json_text r '':updated_at'') = Inr v \<Longrightarrow> v = record_updated_at pg r"
  by (auto simp: cast_text_def record_updated_at_def split: option.splits)

lemma stage_of_updated_at:
  assumes "stage_of pg r = Inr row"
  shows "stg_updated_at row = record_updated_at pg r"
proof -
  from bind_err_InrD[OF assms[unfolded stage_of_def]] obtain upd where
    u: "cast_text (timestamptz_in pg) (json_text r '':updated_at'') = Inr upd" and
    r1: "bind_err (cast_text (date_in pg) (json_text r ''permit_status_date'')) (\<lambda>psd.
     bind_err (cast_text (date_in pg) (json_text r ''expiration_date'')) (\<lambda>exd.
     bind_err (cast_text (date_in pg) (json_text r ''job_start_date'')) (\<lambda>jsd.
     bind_err (cast_text (float8_in pg) (json_text r ''gis_latitude'')) (\<lambda>lat.
     bind_err (cast_text (float8_in pg) (json_text r ''gis_longitude'')) (\<lambda>lon.
     Inr \<lparr>stg_id = json_text r '':id'', stg_updated_at = upd,
          stg_permit_status_date = psd, stg_expiration_date = exd,
          stg_job_start_date = jsd, stg_gis_latitude = lat, stg_gis_longitude = lon,
          stg_raw = r\<rparr>))))) = Inr row" by blast
  from bind_err_InrD[OF r1] obtain psd where
    r2: "bind_err (cast_text (date_in pg) (json_text r ''expiration_date'')) (\<lambda>exd.
     bind_err (cast_text (date_in pg) (json_text r ''job_start_date'')) (\<lambda>jsd.
     bind_err (cast_text (float8_in pg) (json_text r ''gis_latitude'')) (\<lambda>lat.
     bind_err (cast_text (float8_in pg) (json_text r ''gis_longitude'')) (\<lambda>lon.
     Inr \<lparr>stg_id = json_text r '':id'', stg_updated_at = upd,
          stg_permit_status_date = psd, stg_expiration_date = exd,
          stg_job_start_date = jsd, stg_gis_latitude = lat, stg_gis_longitude = lon,
          stg_raw = r\<rparr>)))) = Inr row" by blast
  from bind_err_InrD[OF r2] obtain exd where
    r3: "bind_err (cast_text (date_in pg) (json_text r ''job_start_date'')) (\<lambda>jsd.
     bind_err (cast_text (float8_in pg) (json_text r ''gis_latitude'')) (\<lambda>lat.
     bind_err (cast_text (float8_in pg) (json_text r ''gis_longitude'')) (\<lambda>lon.
     Inr \<lparr>stg_id = json_text r '':id'', stg_updated_at = upd,
          stg_permit_status_date = psd, stg_expiration_date = exd,
          stg_job_start_date = jsd, stg_gis_latitude = lat, stg_gis_longitude = lon,
          stg_raw = r\<rparr>))) = Inr row" by blast
  from bind_err_InrD[OF r3] obtain jsd where
    r4: "bind_err (cast_text (float8_in pg) (json_text r ''gis_latitude'')) (\<lambda>lat.
     bind_err (cast_text (float8_in pg) (json_text r ''gis_longitude'')) (\<lambda>lon.
     Inr \<lparr>stg_id = json_text r '':id'', stg_updated_at = upd,
          stg_permit_status_date = psd, stg_expiration_date = exd,
          stg_job_start_date = jsd, stg_gis_latitude = lat, stg_gis_longitude = lon,
          stg_raw = r\<rparr>)) = Inr row" by blast
  from bind_err_InrD[OF r4] obtain lat where
    r5: "bind_err (cast_text (float8_in pg) (json_text r ''gis_longitude'')) (\<lambda>lon.
     Inr \<lparr>stg_id = json_text r '':id'', stg_updated_at = upd,
          stg_permit_status_date = psd, stg_expiration_date = exd,
          stg_job_start_date = jsd, stg_gis_latitude = lat, stg_gis_longitude = lon,
          stg_raw = r\<rparr>) = Inr row" by blast
  from bind_err_InrD[OF r5] obtain lon where
    "row = \<lparr>stg_id = json_text r '':id'', stg_updated_at = upd,
          stg_permit_status_date = psd, stg_expiration_date = exd,
          stg_job_start_date = jsd, stg_gis_latitude = lat, stg_gis_longitude = lon,
          stg_raw = r\<rparr>" by auto
  then have "stg_updated_at row = upd" by simp
  with cast_text_stamp[OF u] show ?thesis by simp
qed

lemma map_err_map:
  assumes "\<And>x y. f x = Inr y \<Longrightarrow> g y = h x"
  shows "map_err f xs = Inr ys \<Longrightarrow> map g ys = map h xs"
proof (induction xs arbitrary: ys)
  case Nil
  then show ?case by simp
next
  case (Cons x xs)
  from Cons.prems obtain y where y: "f x = Inr y" by (cases "f x") simp_all
  from Cons.prems y obtain zs where zs: "map_err f xs = Inr zs" by (cases "map_err f xs") simp_all
  from Cons.prems y zs have "ys = y # zs" by simp
  with Cons.IH[OF zs] assms[OF y] show ?case by simp
qed

lemma upsert_max_updated:
  assumes "upsert_dob_permits pg rows s = Inr (res, s')"
  shows "max_updated res = sql_max (map (record_updated_at pg) rows)"
proof -
  from upsert_dob_permits_parts[OF assms] obtain st where
    st: "stage pg rows = Inr st" and m: "max_updated res = sql_max (map stg_updated_at st)"
    by blast
  from st have "map stg_updated_at st = map (record_updated_at pg) rows"
    unfolding stage_def by (rule map_err_map[rotated]) (rule stage_of_updated_at)
  with m show ?thesis by simp
qed

lemma sql_max_increasing:
  "sorted_wrt (<) ts \<Longrightarrow> ts \<noteq> [] \<Longrightarrow> sql_max (map Some ts) = Some (last ts)"
proof (induction ts)
  case Nil
  then show ?case by simp
next
  case (Cons t ts)
  show ?case
  proof (cases "ts = []")
    case True
    then show ?thesis by simp
  next
    case False
    from Cons.prems have s: "sorted_wrt (<) ts" and lt: "t < last ts" using False by simp_all
    from Cons.IH[OF s False] lt False show ?thesis by (simp add: max_def)
  qed
qed

lemma stamps_keys:
  "map (record_updated_at pg) D = map Some ts
   \<Longrightarrow> map (\<lambda>r. case record_updated_at pg r of None \<Rightarrow> 0 | Some t \<Rightarrow> t) D = ts"
proof (induction D arbitrary: ts)
  case Nil
  then show ?case by simp
next
  case (Cons r D)
  from Cons.prems obtain t ts' where ts: "ts = t # ts'" by (cases ts) simp_all
  with Cons.prems have "record_updated_at pg r = Some t" "map (record_updated_at pg) D = map Some ts'"
    by simp_all
  with Cons.IH[of ts'] ts show ?case by simp
qed

lemma soql_rows_increasing:
  assumes "map (record_updated_at pg) D = map Some ts" and "sorted_wrt (<) ts"
  shows "soql_rows pg q D = take (q_limit q) (drop (q_offset q) (filter (soql_matches pg q) D))"
proof -
  have "sorted (map (\<lambda>r. case record_updated_at pg r of None \<Rightarrow> 0 | Some t \<Rightarrow> t) D)"
    using stamps_keys[OF assms(1)] strict_sorted_imp_sorted[OF assms(2)] by simp
  then have "sorted (map (\<lambda>r. case record_updated_at pg r of None \<Rightarrow> 0 | Some t \<Rightarrow> t)
               (filter (soql_matches pg q) D))"
    by (rule sorted_filter)
  from sort_key_id_if_sorted[OF this] show ?thesis by (simp add: soql_rows_def)
qed

lemma filter_newer:
  assumes "map (record_updated_at pg) D = map Some ts" and "\<forall>t\<in>set ts. q_where_gt q < t"
      and "q_where_le q = None"
  shows "filter (soql_matches pg q) D = D"
  using assms(1,2)
proof (induction D arbitrary: ts)
  case Nil
  then show ?case by simp
next
  case (Cons r D)
  from Cons.prems(1) obtain t ts' where ts: "ts = t # ts'" by (cases ts) simp_all
  with Cons.prems have r: "record_updated_at pg r = Some t" "q_where_gt q < t"
    and D: "map (record_updated_at pg) D = map Some ts'" "\<forall>t\<in>set ts'. q_where_gt q < t"
    by simp_all
  from r assms(3) have "soql_matches pg q r" by (simp add: soql_matches_def)
  with Cons.IH[OF D] show ?case by simp
qed

lemma filter_older:
  assumes "map (record_updated_at pg) D = map Some ts" and "\<forall>t\<in>set ts. t \<le> q_where_gt q"
  shows "filter (soql_matches pg q) D = []"
  using assms
proof (induction D arbitrary: ts)
  case Nil
  then show ?case by simp
next
  case (Cons r D)
  from Cons.prems(1) obtain t ts' where ts: "ts = t # ts'" by (cases ts) simp_all
  with Cons.prems have r: "record_updated_at pg r = Some t" "t \<le> q_where_gt q"
    and D: "map (record_updated_at pg) D = map Some ts'" "\<forall>t\<in>set ts'. t \<le> q_where_gt q"
    by simp_all
  from r have "\<not> soql_matches pg q r" by (simp add: soql_matches_def)
  with Cons.IH[OF D] show ?case by simp
qed

lemma sync_page_quiet:
  assumes "supabase_faults w = []" and "fetch_script w = []"
      and "soql_rows pg \<lparr>q_where_gt = newestSeen st, q_where_le = until, q_limit = ps,
                          q_offset = page st * ps\<rparr> (socrata w) = recs"
      and "recs \<noteq> []"
      and "upsert_dob_permits pg recs (db w) = Inr (res, s')"
  shows "sync_page pg ps until st w =
          (Inr (if length recs < ps then (False, advance res (length recs) st)
                else (True, (advance res (length recs) st)
                              \<lparr>page := page (advance res (length recs) st) + 1\<rparr>)),
           w\<lparr>db := s',
             trace := trace w @ [PageRequest \<lparr>q_where_gt = newestSeen st, q_where_le = until,
                                   q_limit = ps, q_offset = page st * ps\<rparr>, UpsertPage recs]\<rparr>)"
proof -
  define q where "q = \<lparr>q_where_gt = newestSeen st, q_where_le = until, q_limit = ps,
                          q_offset = page st * ps\<rparr>"
  define w0 where "w0 = log_event (PageRequest q) w"
  have w0: "fetch_script w0 = []" "supabase_faults w0 = []" "db w0 = db w"
    using assms(1,2) by (simp_all add: w0_def log_event_def)
  have fr: "fetch_retry 3 (BodyRecords recs) w0 = (Inr (BodyRecords recs), w0)"
    using fetch_retry_no_script[OF w0(1), of 2] by (simp add: numeral_3_eq_3)
  have up: "upsert_rpc pg recs w0 = (Inr res, (log_event (UpsertPage recs) w0)\<lparr>db := s'\<rparr>)"
    using w0 assms(5) by (simp add: upsert_rpc_def pop_fault_def log_event_def)
  have "sync_page pg ps until st w =
          (Inr (if length recs < ps then (False, advance res (length recs) st)
                else (True, (advance res (length recs) st)
                              \<lparr>page := page (advance res (length recs) st) + 1\<rparr>)),
           (log_event (UpsertPage recs) w0)\<lparr>db := s'\<rparr>)"
    unfolding sync_page_def Let_def q_def[symmetric] w0_def[symmetric]
    using assms(3,4) fr up by (simp add: q_def)
  moreover have "(log_event (UpsertPage recs) w0)\<lparr>db := s'\<rparr>
      = w\<lparr>db := s', trace := trace w @ [PageRequest q, UpsertPage recs]\<rparr>"
    by (simp add: w0_def log_event_def)
  ultimately show ?thesis by (simp add: q_def)
qed

lemma advance_newer:
  assumes "max_updated res = Some m" and "newestSeen st < m"
  shows "advance res n st =
           st\<lparr>totalInserted := totalInserted st + inserted res,
              totalUpdated := totalUpdated st + updated res,
              newestSeen := m, maxUpdatedAt := Some m,
              totalProcessed := totalProcessed st + n\<rparr>"
  using assms by (simp add: advance_def Let_def)

lemma increasing_le_last:
  "sorted_wrt (<) (ts :: int list) \<Longrightarrow> t \<in> set ts \<Longrightarrow> t \<le> last ts"
proof (induction ts)
  case Nil
  then show ?case by simp
next
  case (Cons a ts)
  show ?case
  proof (cases "ts = []")
    case True
    with Cons.prems show ?thesis by simp
  next
    case False
    from Cons.prems(1) have s: "sorted_wrt (<) ts" and a: "a < last ts" using False by simp_all
    from Cons.prems(2) have "t = a \<or> t \<in> set ts" by simp
    then show ?thesis
    proof
      assume "t = a" with a False show ?thesis by simp
    next
      assume "t \<in> set ts" from Cons.IH[OF s this] False show ?thesis by simp
    qed
  qed
qed

lemma sync_loop_two_pages:
  assumes quiet: "supabase_faults w = []" "fetch_script w = []"
      and data: "socrata w = A @ B @ C"
      and sizes: "length A = ps" "length B = ps" "C \<noteq> []" "length C < ps"
      and stamps: "map (record_updated_at pg) A = map Some ta"
                  "map (record_updated_at pg) B = map Some tb"
                  "map (record_updated_at pg) C = map Some tc"
      and incr: "sorted_wrt (<) (0 # ta @ tb @ tc)"
      and up1: "upsert_dob_permits pg A (db w) = Inr (r1, s1)"
      and up2: "upsert_dob_permits pg C s1 = Inr (r2, s2)"
  shows "sync_loop pg ps None
           \<lparr>page = 0, totalProcessed = 0, totalInserted = 0, totalUpdated = 0,
            newestSeen = 0, maxUpdatedAt = None\<rparr> w
         = (Inr \<lparr>page = 1, totalProcessed = ps + length C,
                 totalInserted = inserted r1 + inserted r2,
                 totalUpdated = updated r1 + updated r2,
                 newestSeen = last tc, maxUpdatedAt = Some (last tc)\<rparr>,
            w\<lparr>db := s2,
              trace := trace w @
                [PageRequest \<lparr>q_where_gt = 0, q_where_le = None, q_limit = ps, q_offset = 0\<rparr>,
                 UpsertPage A,
                 PageRequest \<lparr>q_where_gt = last ta, q_where_le = None, q_limit = ps, q_offset = ps\<rparr>,
                 UpsertPage C]\<rparr>)"
proof -
  define st0 where "st0 = \<lparr>page = 0, totalProcessed = 0, totalInserted = 0, totalUpdated = 0,
            newestSeen = 0, maxUpdatedAt = None :: timestamptz option\<rparr>"
  define q1 where "q1 = \<lparr>q_where_gt = 0, q_where_le = None, q_limit = ps, q_offset = 0\<rparr>"
  define q2 where "q2 = \<lparr>q_where_gt = last ta, q_where_le = None, q_limit = ps, q_offset = ps\<rparr>"
  define st1 where "st1 = \<lparr>page = 1, totalProcessed = ps, totalInserted = inserted r1,
            totalUpdated = updated r1, newestSeen = last ta, maxUpdatedAt = Some (last ta)\<rparr>"
  define w1 where "w1 = w\<lparr>db := s1, trace := trace w @ [PageRequest q1, UpsertPage A]\<rparr>"
  have la: "length ta = ps" "length tc = length C"
    using arg_cong[OF stamps(1), of length] arg_cong[OF stamps(3), of length] sizes(1) by simp_all
  have pos: "0 < ps" using sizes(4) by simp
  have ne: "ta \<noteq> []" "tc \<noteq> []" "A \<noteq> []" using la pos sizes by auto
  have sa: "sorted_wrt (<) ta" and sc: "sorted_wrt (<) tc" and sall: "sorted_wrt (<) (ta @ tb @ tc)"
    and p0: "\<forall>t\<in>set (ta @ tb @ tc). 0 < t"
    and ab: "\<forall>x\<in>set ta. \<forall>y\<in>set (tb @ tc). x < y"
    using incr by (simp_all add: sorted_wrt_append)
  have all: "map (record_updated_at pg) (A @ B @ C) = map Some (ta @ tb @ tc)"
    using stamps by simp
  have bc: "map (record_updated_at pg) (B @ C) = map Some (tb @ tc)"
    using stamps by simp
  have lta: "last ta \<in> set ta" using ne by simp
  have lt0: "0 < last ta" using p0 lta by simp
  have ltc: "last ta < last tc" using ab lta ne by simp
  \<comment> \<open>the first request\<close>
  have f1: "filter (soql_matches pg q1) (A @ B @ C) = A @ B @ C"
    by (rule filter_newer[OF all]) (use p0 in \<open>simp_all add: q1_def\<close>)
  have rows1: "soql_rows pg q1 (socrata w) = A"
    unfolding data soql_rows_increasing[OF all sall] f1 using sizes(1) by (simp add: q1_def)
  have m1: "max_updated r1 = Some (last ta)"
    using upsert_max_updated[OF up1] stamps(1) sql_max_increasing[OF sa ne(1)] by simp
  have a1: "advance r1 (length A) st0 = st1\<lparr>page := 0\<rparr>"
    using advance_newer[OF m1, of st0 "length A"] lt0 sizes(1) by (simp add: st0_def st1_def)
  have page1: "sync_page pg ps None st0 w = (Inr (True, st1), w1)"
    using sync_page_quiet[OF quiet, of pg st0 None ps A r1 s1] rows1 ne(3) up1 sizes(1) a1
    by (simp add: st0_def q1_def st1_def w1_def)
  \<comment> \<open>the second request\<close>
  have w1: "supabase_faults w1 = []" "fetch_script w1 = []" "socrata w1 = A @ B @ C" "db w1 = s1"
    using quiet data by (simp_all add: w1_def)
  have fA: "filter (soql_matches pg q2) A = []"
    by (rule filter_older[OF stamps(1)]) (use increasing_le_last[OF sa] in \<open>simp add: q2_def\<close>)
  have fBC: "filter (soql_matches pg q2) (B @ C) = B @ C"
    by (rule filter_newer[OF bc]) (use ab lta in \<open>simp_all add: q2_def\<close>)
  have f2: "filter (soql_matches pg q2) (A @ B @ C) = B @ C"
    using fA fBC by simp
  have rows2: "soql_rows pg q2 (socrata w1) = C"
    unfolding w1(3) soql_rows_increasing[OF all sall] f2 using sizes by (simp add: q2_def)
  have m2: "max_updated r2 = Some (last tc)"
    using upsert_max_updated[OF up2] stamps(3) sql_max_increasing[OF sc ne(2)] by simp
  have a2: "advance r2 (length C) st1 =
       \<lparr>page = 1, totalProcessed = ps + length C,
        totalInserted = inserted r1 + inserted r2,
        totalUpdated = updated r1 + updated r2,
        newestSeen = last tc, maxUpdatedAt = Some (last tc)\<rparr>"
    using advance_newer[OF m2, of st1 "length C"] ltc by (simp add: st1_def)
  have page2: "sync_page pg ps None st1 w1 =
       (Inr (False, \<lparr>page = 1, totalProcessed = ps + length C,
                     totalInserted = inserted r1 + inserted r2,
                     totalUpdated = updated r1 + updated r2,
                     newestSeen = last tc, maxUpdatedAt = Some (last tc)\<rparr>),
        w1\<lparr>db := s2, trace := trace w1 @ [PageRequest q2, UpsertPage C]\<rparr>)"
    using sync_page_quiet[OF w1(1,2), of pg st1 None ps C r2 s2] rows2 sizes(3,4) up2 a2 w1(4)
    by (simp add: st1_def q2_def)
  have "sync_loop pg ps None st0 w = sync_loop pg ps None st1 w1"
    by (subst sync_loop.simps) (simp add: page1)
  also have "\<dots> = (Inr \<lparr>page = 1, totalProcessed = ps + length C,
                     totalInserted = inserted r1 + inserted r2,
                     totalUpdated = updated r1 + updated r2,
                     newestSeen = last tc, maxUpdatedAt = Some (last tc)\<rparr>,
        w1\<lparr>db := s2, trace := trace w1 @ [PageRequest q2, UpsertPage C]\<rparr>)"
    by (subst sync_loop.simps) (simp add: page2)
  finally show ?thesis by (simp add: st0_def w1_def q1_def q2_def)
qed

lemmas sync_eval =
  dob_permits_sync_def PAGE_SIZE_def sync_with_def run_pages_def read_watermark_def
  preflight_def preflight_answer_def write_sync_state_def sync_loop.simps sync_page_def
  upsert_rpc_def advance_def fetch_def response_ok_def soql_rows_def soql_matches_def
  record_updated_at_def pop_fault_def log_event_def falsy_def coalesce_text_def
  quiet_world_def demo_env_def sync_failure_def current_dob_watermark_def Let_def

section \<open>Claims about the bulk upsert's parsing and the geometry\<close>

text \<open>
  C5.  The claim: an empty or missing date-like field stores as null, and a malformed
  date fails the whole page.  The code does the second and, for four of the date
  columns, not the first: \<open>stage\<close> casts \<open>permit_status_date\<close>, \<open>expiration_date\<close> and
  \<open>job_start_date\<close> to \<open>date\<close> (and \<open>:updated_at\<close> to \<open>timestamptz\<close>) without the
  \<open>!= ''\<close> guard that \<open>issuance_date\<close>, \<open>dobrundate\<close> and \<open>filing_date\<close> have, and the
  guard of \<open>permits_upsert\<close> (\<open>when expiration_date is not null\<close>) comes after the cast.
  PostgreSQL rejects the empty text as a date, so a page with one such record fails as
  a whole instead of storing null.
\<close>

theorem empty_date_text_fails_page:
  assumes "date_in pg [] = None"
      and "r \<in> set rows"
      and "json_text r ''expiration_date'' = Some [] \<or> json_text r ''job_start_date'' = Some []
           \<or> json_text r ''permit_status_date'' = Some []"
  shows "\<exists>e. upsert_dob_permits pg rows s = Inl e"
proof -
  from stage_of_empty_date[OF assms(1) assms(3)] obtain e where "stage_of pg r = Inl e" ..
  from map_err_Inl[where f="stage_of pg", OF assms(2) this] obtain e' where "stage pg rows = Inl e'"
    unfolding stage_def ..
  then show ?thesis by (simp add: upsert_dob_permits_def)
qed

theorem empty_date_text_fails_page_witness:
  "date_in demo_pg [] = None
   \<and> json_text demo_empty_expiration ''expiration_date'' = Some []
   \<and> (\<exists>e. upsert_dob_permits demo_pg [demo_empty_expiration] empty_store = Inl e)"
  using empty_date_text_fails_page
    [of demo_pg demo_empty_expiration "[demo_empty_expiration]" empty_store]
  by (simp add: demo_pg_def demo_date_in_def demo_in_def date_regex_def
      demo_empty_expiration_def json_text_def)

text \<open>
  C6.  The trigger derives both geometry columns from the coordinates: a latitude in
  [-90, 90] with a longitude in [-180, 180] gives the point (longitude, latitude), and
  anything else gives NULL; every row the bulk upsert writes has gone through the
  trigger, so it is a fixed point of it; a tile is the same with and without the rows
  whose geometry is NULL, and the view \<open>v_dob_permits_pts\<close> has no such row.
\<close>

theorem geometry_derived_and_required:
  "(p_gis_latitude p = Some la \<and> p_gis_longitude p = Some lo
      \<and> - 90 \<le> la \<and> la \<le> 90 \<and> - 180 \<le> lo \<and> lo \<le> 180
     \<longrightarrow> p_geom_4326 (populate_geom_from_coords p) = Some (ST_Point lo la)
         \<and> p_geom (populate_geom_from_coords p) = Some (ST_Point lo la))
   \<and> (\<not> coords_valid (p_gis_latitude p') (p_gis_longitude p')
     \<longrightarrow> p_geom_4326 (populate_geom_from_coords p') = None
         \<and> p_geom (populate_geom_from_coords p') = None)
   \<and> (upsert_dob_permits pg rows s = Inr (res, s') \<and> q \<in> set (dob_permits s')
        \<and> q \<notin> set (dob_permits s)
     \<longrightarrow> populate_geom_from_coords q = q)
   \<and> dob_permit_tiles pg gis z x y date
        (t\<lparr>dob_permits := filter (\<lambda>p. p_geom_4326 p \<noteq> None) (dob_permits t)\<rparr>)
      = dob_permit_tiles pg gis z x y date t
   \<and> (\<forall>v \<in> set (v_dob_permits_pts t). p_geom v \<noteq> None)"
proof (intro conjI impI)
  assume "p_gis_latitude p = Some la \<and> p_gis_longitude p = Some lo
      \<and> - 90 \<le> la \<and> la \<le> 90 \<and> - 180 \<le> lo \<and> lo \<le> 180"
  then show "p_geom_4326 (populate_geom_from_coords p) = Some (ST_Point lo la)"
    and "p_geom (populate_geom_from_coords p) = Some (ST_Point lo la)"
    by (simp_all add: populate_geom_from_coords_def)
next
  assume "\<not> coords_valid (p_gis_latitude p') (p_gis_longitude p')"
  then show "p_geom_4326 (populate_geom_from_coords p') = None"
    and "p_geom (populate_geom_from_coords p') = None"
    by (auto simp: populate_geom_from_coords_def coords_valid_def split: option.splits)
next
  assume a: "upsert_dob_permits pg rows s = Inr (res, s') \<and> q \<in> set (dob_permits s')
        \<and> q \<notin> set (dob_permits s)"
  from upsert_dob_permits_permits[of pg rows s res s'] a obtain ps where
    "dob_permits s' = foldl (\<lambda>t r. upsert_by p_id (populate_geom_from_coords r) t) (dob_permits s) ps"
    by auto
  with set_foldl_upsert[of p_id populate_geom_from_coords "dob_permits s" ps] a
  have "q \<in> populate_geom_from_coords ` set ps" by auto
  then show "populate_geom_from_coords q = q" by (auto simp: populate_idem)
next
  show "dob_permit_tiles pg gis z x y date
        (t\<lparr>dob_permits := filter (\<lambda>p. p_geom_4326 p \<noteq> None) (dob_permits t)\<rparr>)
      = dob_permit_tiles pg gis z x y date t"
  proof -
    have sel: "dob_permits (t\<lparr>dob_permits := filter (\<lambda>p. p_geom_4326 p \<noteq> None) (dob_permits t)\<rparr>)
                 = filter (\<lambda>p. p_geom_4326 p \<noteq> None) (dob_permits t)"
      by simp
    show ?thesis unfolding dob_permit_tiles_def sel tile_src_nonnull_geom ..
  qed
next
  show "\<forall>v \<in> set (v_dob_permits_pts t). p_geom v \<noteq> None"
    by (simp add: v_dob_permits_pts_def)
qed

lemma scenario_a_upsert:
  "upsert_dob_permits demo_pg [scenario_a] empty_store
     = Inr (\<lparr>inserted = 1, updated = 0, max_updated = Some 20240102\<rparr>, scenario_a_store)"
  by (simp add: upsert_dob_permits_def stage_def stage_of_def cast_text_def cast_nonempty_def
      json_text_def scenario_a_def demo_pg_def demo_in_def is_digit_def decimal_value_def
      permit_details_upsert_def permit_detail_of_def stg_permit_number_def coalesce_def
      permits_upsert_def permit_of_def stg_permit_issuance_date_str_def stg_bin_def
      stg_council_district_def stg_zipcode_def permit_exists_def empty_store_def
      buildings_upsert_def building_of_def List.map_filter_def entities_upsert_def
      entity_rows_def entity_candidates_def owner_present_def permittee_present_def
      nonblank_def scenario_a_store_def demo_permit_def populate_geom_from_coords_def)

theorem geometry_derived_and_required_witness:
  "p_geom_4326 (populate_geom_from_coords (demo_permit ''P1'' (Some 40) (Some 73) None))
       = Some (ST_Point 73 40)
   \<and> \<not> coords_valid (Some 91) (Some 73)
   \<and> p_geom_4326 (populate_geom_from_coords (demo_permit ''P2'' (Some 91) (Some 73) None)) = None
   \<and> upsert_dob_permits demo_pg [scenario_a] empty_store
       = Inr (\<lparr>inserted = 1, updated = 0, max_updated = Some 20240102\<rparr>, scenario_a_store)
   \<and> map p_geom_4326 (dob_permits scenario_a_store) = [Some (ST_Point 73 40)]
   \<and> populate_geom_from_coords (hd (dob_permits scenario_a_store)) = hd (dob_permits scenario_a_store)
   \<and> dob_permit_tiles demo_pg demo_gis 5 0 0 None
        (scenario_a_store\<lparr>dob_permits := dob_permits scenario_a_store
                                          @ [demo_permit ''P2'' (Some 91) (Some 73) None]\<rparr>)
       = Inr [1]"
  using geometry_derived_and_required
    [where p = "demo_permit ''P1'' (Some 40) (Some 73) None" and la = 40 and lo = 73
       and p' = "demo_permit ''P2'' (Some 91) (Some 73) None"
       and pg = demo_pg and rows = "[scenario_a]" and s = empty_store
       and res = "\<lparr>inserted = 1, updated = 0, max_updated = Some 20240102\<rparr>"
       and s' = scenario_a_store and q = "hd (dob_permits scenario_a_store)"
       and gis = demo_gis and z = 5 and x = 0 and y = 0 and date = None
       and t = "scenario_a_store\<lparr>dob_permits := dob_permits scenario_a_store
                                          @ [demo_permit ''P2'' (Some 91) (Some 73) None]\<rparr>"]
    scenario_a_upsert
  by (simp add: demo_permit_def coords_valid_def populate_geom_from_coords_def
      scenario_a_store_def empty_store_def dob_permit_tiles_def cast_text_def
      tile_src_def List.map_filter_def date_matches_def demo_gis_def mvtgeom_def ST_Point_def)


section \<open>Claims about the tile endpoint\<close>

text \<open>
  C7.  The claim: two generations of a tile for the same zoom, x, y and date against
  unchanged store data give the same bytes.  The query of \<open>dob_permit_tiles\<close> has no
  \<open>order by\<close>: \<open>ST_AsMVT\<close> writes the features in the order in which the scan delivers
  the rows, which SQL leaves open for an unchanged table.  And the day of a permit is
  \<open>permit_issuance_date::date\<close>, taken in the time zone of the session.  With an encoder
  that writes one byte a feature, in the order of its input, the same two permits give
  other bytes in the other order, and another tile in a session whose day starts earlier.
\<close>

theorem tile_bytes_counterexample:
  "mset (dob_permits (pair_store\<lparr>dob_permits := rev (dob_permits pair_store)\<rparr>))
     = mset (dob_permits pair_store)
   \<and> dob_permit_tiles demo_pg listing_gis 5 0 0 (Some ''2025-11-12'') pair_store = Inr [49, 50]
   \<and> dob_permit_tiles demo_pg listing_gis 5 0 0 (Some ''2025-11-12'')
        (pair_store\<lparr>dob_permits := rev (dob_permits pair_store)\<rparr>) = Inr [50, 49]
   \<and> dob_permit_tiles (demo_pg\<lparr>timestamptz_to_date := (\<lambda>t. (t + 50) div 100)\<rparr>) listing_gis
        5 0 0 (Some ''2025-11-12'') pair_store = Inr [49]"
  by (simp add: dob_permit_tiles_def cast_text_def demo_pg_def demo_date_in_def date_regex_def
      is_digit_def decimal_value_def tile_src_def List.map_filter_def date_matches_def
      pair_store_def empty_store_def demo_permit_def populate_geom_from_coords_def
      demo_gis_def listing_gis_def mvtgeom_def)

text \<open>
  C7, amended.  For the same rows of \<open>dob_permits\<close> in any order, and sessions that
  agree on the date input and on the day of an instant, the generator passes the same
  rows to \<open>ST_AsMVT\<close>, each as often; the bytes are the same when the rows come in the
  same order, and in any order for an encoder that does not depend on it.  The
  generator returns bytes and no store: the call leaves the store as it is, and a request
  served by the handler, its cache write included, leaves the permits as they are.
\<close>

theorem tile_generation_same_rows:
  assumes "mset (dob_permits s) = mset (dob_permits s')"
      and "date_in pg = date_in pg'"
      and "timestamptz_to_date pg = timestamptz_to_date pg'"
  shows "mset (mvtgeom gis z x y (tile_src pg gis z x y d (dob_permits s)))
           = mset (mvtgeom gis z x y (tile_src pg' gis z x y d (dob_permits s')))
         \<and> (dob_permits s = dob_permits s'
              \<longrightarrow> dob_permit_tiles pg gis z x y date s = dob_permit_tiles pg' gis z x y date s')
         \<and> ((\<forall>rs rs'. mset rs = mset rs'
                 \<longrightarrow> ST_AsMVT gis rs ''permits'' 4096 ''geom'' = ST_AsMVT gis rs' ''permits'' 4096 ''geom'')
              \<longrightarrow> dob_permit_tiles pg gis z x y date s = dob_permit_tiles pg' gis z x y date s')
         \<and> (tile_rpc pg gis z x y dateStr w = (r, w') \<longrightarrow> db w' = db w)
         \<and> (tiles_handler env pg gis req v = (resp, v') \<longrightarrow> dob_permits (db v') = dob_permits (db v))"
proof -
  note rows = tile_rows_mset[OF assms(1) assms(3)]
  have p1: "mset (mvtgeom gis z x y (tile_src pg gis z x y d (dob_permits s)))
           = mset (mvtgeom gis z x y (tile_src pg' gis z x y d (dob_permits s')))"
    by (rule rows)
  have p2: "dob_permits s = dob_permits s'
              \<longrightarrow> dob_permit_tiles pg gis z x y date s = dob_permit_tiles pg' gis z x y date s'"
    by (simp add: dob_permit_tiles_def assms(2) tile_src_session[OF assms(3)])
  have p3: "(\<forall>rs rs'. mset rs = mset rs'
                 \<longrightarrow> ST_AsMVT gis rs ''permits'' 4096 ''geom'' = ST_AsMVT gis rs' ''permits'' 4096 ''geom'')
              \<longrightarrow> dob_permit_tiles pg gis z x y date s = dob_permit_tiles pg' gis z x y date s'"
  proof
    assume enc: "\<forall>rs rs'. mset rs = mset rs'
                 \<longrightarrow> ST_AsMVT gis rs ''permits'' 4096 ''geom'' = ST_AsMVT gis rs' ''permits'' 4096 ''geom''"
    have "\<And>d. ST_AsMVT gis (mvtgeom gis z x y (tile_src pg gis z x y d (dob_permits s)))
                 ''permits'' 4096 ''geom''
              = ST_AsMVT gis (mvtgeom gis z x y (tile_src pg' gis z x y d (dob_permits s')))
                 ''permits'' 4096 ''geom''"
      using enc rows by blast
    then show "dob_permit_tiles pg gis z x y date s = dob_permit_tiles pg' gis z x y date s'"
      by (simp add: dob_permit_tiles_def assms(2))
  qed
  have p4: "tile_rpc pg gis z x y dateStr w = (r, w') \<longrightarrow> db w' = db w"
    using tile_rpc_frame by blast
  have p5: "tiles_handler env pg gis req v = (resp, v') \<longrightarrow> dob_permits (db v') = dob_permits (db v)"
    using tiles_handler_permits by blast
  from p1 p2 p3 p4 p5 show ?thesis by (intro conjI)
qed

lemma demo_tile_bytes:
  "dob_permit_tiles demo_pg demo_gis 5 0 0 (Some ''2025-11-12'') demo_tile_store = Inr [1]"
  by (simp add: dob_permit_tiles_def cast_text_def demo_pg_def demo_date_in_def date_regex_def
      is_digit_def decimal_value_def tile_src_def List.map_filter_def date_matches_def
      demo_tile_store_def empty_store_def demo_permit_def populate_geom_from_coords_def
      demo_gis_def mvtgeom_def)

lemma quiet_world_db: "db (quiet_world s d) = s"
  by (simp add: quiet_world_def)

lemma demo_tile_store_cache: "mvt_cache demo_tile_store = []"
  by (simp add: demo_tile_store_def empty_store_def)

lemma demo_gis_unordered:
  "\<forall>rs rs'. mset rs = mset rs'
      \<longrightarrow> ST_AsMVT demo_gis rs ''permits'' 4096 ''geom'' = ST_AsMVT demo_gis rs' ''permits'' 4096 ''geom''"
proof (intro allI impI)
  fix rs rs' :: "point mvt_row list"
  assume m: "mset rs = mset rs'"
  then have l: "length rs = length rs'" by (rule mset_eq_length)
  then have "(rs = []) = (rs' = [])" by (cases rs; cases rs') simp_all
  with l show "ST_AsMVT demo_gis rs ''permits'' 4096 ''geom'' = ST_AsMVT demo_gis rs' ''permits'' 4096 ''geom''"
    by (simp add: demo_gis_def map_replicate_const)
qed

lemma pair_store_rows:
  "mset (dob_permits pair_store) = mset (dob_permits (pair_store\<lparr>dob_permits := rev (dob_permits pair_store)\<rparr>))"
  by simp

lemma pair_store_bytes:
  "dob_permit_tiles demo_pg demo_gis 5 0 0 (Some ''2025-11-12'') pair_store = Inr [1, 1]"
  by (simp add: dob_permit_tiles_def cast_text_def demo_pg_def demo_date_in_def date_regex_def
      is_digit_def decimal_value_def tile_src_def List.map_filter_def date_matches_def
      pair_store_def empty_store_def demo_permit_def populate_geom_from_coords_def
      demo_gis_def mvtgeom_def)

theorem tile_generation_same_rows_witness:
  "mset (dob_permits pair_store)
     = mset (dob_permits (pair_store\<lparr>dob_permits := rev (dob_permits pair_store)\<rparr>))
   \<and> dob_permits pair_store \<noteq> rev (dob_permits pair_store)
   \<and> dob_permit_tiles (demo_pg\<lparr>float8_in := (\<lambda>t. None)\<rparr>) demo_gis 5 0 0 (Some ''2025-11-12'')
        (pair_store\<lparr>dob_permits := rev (dob_permits pair_store)\<rparr>) = Inr [1, 1]"
proof -
  have c1: "date_in demo_pg = date_in (demo_pg\<lparr>float8_in := (\<lambda>t. None)\<rparr>)"
    and c2: "timestamptz_to_date demo_pg = timestamptz_to_date (demo_pg\<lparr>float8_in := (\<lambda>t. None)\<rparr>)"
    by simp_all
  note t = tile_generation_same_rows
    [where gis = demo_gis and z = 5 and x = 0 and y = 0 and date = "Some ''2025-11-12''",
     OF pair_store_rows c1 c2]
  from t have "(\<forall>rs rs'. mset rs = mset rs'
        \<longrightarrow> ST_AsMVT demo_gis rs ''permits'' 4096 ''geom'' = ST_AsMVT demo_gis rs' ''permits'' 4096 ''geom'')
     \<longrightarrow> dob_permit_tiles demo_pg demo_gis 5 0 0 (Some ''2025-11-12'') pair_store
      = dob_permit_tiles (demo_pg\<lparr>float8_in := (\<lambda>t. None)\<rparr>) demo_gis 5 0 0 (Some ''2025-11-12'')
          (pair_store\<lparr>dob_permits := rev (dob_permits pair_store)\<rparr>)"
    by (rule conjunct2[THEN conjunct2, THEN conjunct1])
  from this demo_gis_unordered
  have "dob_permit_tiles demo_pg demo_gis 5 0 0 (Some ''2025-11-12'') pair_store
      = dob_permit_tiles (demo_pg\<lparr>float8_in := (\<lambda>t. None)\<rparr>) demo_gis 5 0 0 (Some ''2025-11-12'')
          (pair_store\<lparr>dob_permits := rev (dob_permits pair_store)\<rparr>)"
    by (rule mp)
  with pair_store_bytes have "dob_permit_tiles (demo_pg\<lparr>float8_in := (\<lambda>t. None)\<rparr>) demo_gis 5 0 0
        (Some ''2025-11-12'') (pair_store\<lparr>dob_permits := rev (dob_permits pair_store)\<rparr>) = Inr [1, 1]"
    by simp
  moreover have "dob_permits pair_store \<noteq> rev (dob_permits pair_store)"
    by (simp add: pair_store_def demo_permit_def populate_geom_from_coords_def)
  ultimately show ?thesis using pair_store_rows by (intro conjI)
qed

text \<open>
  C8.  A request that passes validation, misses the cache and gets the empty bytea from
  the generator is answered with status 200 and an empty body; the store, the cache
  table included, is as before, and the only calls made are the cache lookup and the
  generator call.  The generator itself answers a request that selects no feature
  with the empty bytea, not with an error, on a PostGIS whose encoder gives NULL or
  no bytes for no rows.
\<close>

theorem empty_tile_served_not_cached:
  assumes "validate_request env req = Inr (z, x, y, dateStr)"
      and "cache_lookup (''permits'', z, x, y, dateStr, dateStr) w = (None, w1)"
      and "pop_fault (log_event (TileRpc z x y (Some dateStr)) w1) = (False, w2)"
      and "dob_permit_tiles pg gis z x y (Some dateStr) (db w1) = Inr []"
  shows "tiles_handler env pg gis req w = (empty_tile, w2)
         \<and> status empty_tile = 200 \<and> body empty_tile = TileBody []
         \<and> db w2 = db w
         \<and> trace w2 = trace w @ [CacheLookup (''permits'', z, x, y, dateStr, dateStr),
                                  TileRpc z x y (Some dateStr)]
         \<and> (date_in pg' dateStr' \<noteq> None
              \<and> mvtgeom gis' z' x' y' (tile_src pg' gis' z' x' y' (date_in pg' dateStr') (dob_permits s)) = []
              \<and> ST_AsMVT gis' [] ''permits'' 4096 ''geom'' \<in> {None, Some []}
            \<longrightarrow> dob_permit_tiles pg' gis' z' x' y' (Some dateStr') s = Inr [])"
proof -
  from pop_fault_frame[OF assms(3)] have f2: "db w2 = db w1"
    "trace w2 = trace w1 @ [TileRpc z x y (Some dateStr)]"
    by (simp_all add: log_event_def)
  have rpc: "tile_rpc pg gis z x y dateStr w1 = (Inr (JString (bytea_out [])), w2)"
    using assms(3,4) f2 by (simp add: tile_rpc_def)
  have e: "rpc_data_empty (JString (bytea_out []))"
    by (simp add: rpc_data_empty_def bytea_out_def)
  have "tiles_handler env pg gis req w = (empty_tile, w2)"
    using assms(1,2) rpc e by (simp add: tiles_handler_def serve_tile_def)
  moreover note cache_lookup_frame[OF assms(2)] f2
  moreover have "date_in pg' dateStr' \<noteq> None
              \<and> mvtgeom gis' z' x' y' (tile_src pg' gis' z' x' y' (date_in pg' dateStr') (dob_permits s)) = []
              \<and> ST_AsMVT gis' [] ''permits'' 4096 ''geom'' \<in> {None, Some []}
            \<longrightarrow> dob_permit_tiles pg' gis' z' x' y' (Some dateStr') s = Inr []"
    by (auto simp: dob_permit_tiles_def cast_text_def)
  ultimately show ?thesis by (simp add: empty_tile_def)
qed

lemma demo_empty_validate:
  "validate_request demo_env (tile_get ''/tiles/permits/5/0/0'' (Some ''2025-11-13''))
     = Inr (5, 0, 0, ''2025-11-13'')"
  by (simp add: validate_request_def tile_get_def demo_env_def falsy_def
      path_parts_def parseInt10_def js_whitespace_def is_digit_def decimal_value_def
      date_regex_def coalesce_text_def)

lemma demo_empty_bytes:
  "dob_permit_tiles demo_pg demo_gis 5 0 0 (Some ''2025-11-13'') demo_tile_store = Inr []"
  by (simp add: dob_permit_tiles_def cast_text_def demo_pg_def demo_date_in_def date_regex_def
      is_digit_def decimal_value_def tile_src_def List.map_filter_def date_matches_def
      demo_tile_store_def empty_store_def demo_permit_def populate_geom_from_coords_def
      demo_gis_def mvtgeom_def)

theorem empty_tile_served_not_cached_witness:
  "validate_request demo_env (tile_get ''/tiles/permits/5/0/0'' (Some ''2025-11-13''))
     = Inr (5, 0, 0, ''2025-11-13'')
   \<and> dob_permit_tiles demo_pg demo_gis 5 0 0 (Some ''2025-11-13'') demo_tile_store = Inr []
   \<and> status (fst (tiles_handler demo_env demo_pg demo_gis
         (tile_get ''/tiles/permits/5/0/0'' (Some ''2025-11-13'')) (quiet_world demo_tile_store []))) = 200
   \<and> db (snd (tiles_handler demo_env demo_pg demo_gis
         (tile_get ''/tiles/permits/5/0/0'' (Some ''2025-11-13'')) (quiet_world demo_tile_store [])))
       = demo_tile_store"
  using empty_tile_served_not_cached
    [where env = demo_env and req = "tile_get ''/tiles/permits/5/0/0'' (Some ''2025-11-13'')"
       and z = 5 and x = 0 and y = 0 and dateStr = "''2025-11-13''"
       and w = "quiet_world demo_tile_store []"
       and ?w1.0 = "(quiet_world demo_tile_store [])
           \<lparr>trace := [CacheLookup (''permits'', 5, 0, 0, ''2025-11-13'', ''2025-11-13'')]\<rparr>"
       and ?w2.0 = "(quiet_world demo_tile_store [])
           \<lparr>trace := [CacheLookup (''permits'', 5, 0, 0, ''2025-11-13'', ''2025-11-13''),
                      TileRpc 5 0 0 (Some ''2025-11-13'')]\<rparr>"
       and pg = demo_pg and gis = demo_gis
       and pg' = demo_pg and gis' = demo_gis and z' = 5 and x' = 0 and y' = 0
       and dateStr' = "''2025-11-13''" and s = demo_tile_store]
    demo_empty_validate demo_empty_bytes
  by (simp add: cache_lookup_def pop_fault_def log_event_def quiet_world_def cache_single_def
      demo_tile_store_cache)

lemma demo_mixed_store_cache: "mvt_cache demo_mixed_store = []"
  by (simp add: demo_mixed_store_def empty_store_def)

text \<open>
  C9.  The claim: a request whose zoom is outside [0, 16], whose x or y is outside
  [0, 2^zoom), or whose coordinates are non-numeric, is rejected with status 400 before
  any cache lookup or tile generation.  The handler reads a coordinate with
  \<open>parseInt(segment, 10)\<close>, which takes the digits a segment starts with and ignores the
  rest: the segment \<open>5abc\<close> is not a number and is served as zoom 5.
\<close>

theorem non_numeric_coordinate_counterexample:
  "parseInt10 ''5abc'' = Some 5
   \<and> status (fst (tiles_handler demo_env demo_pg demo_gis
         (tile_get ''/tiles/permits/5abc/0/0'' (Some ''2025-11-12'')) (quiet_world demo_tile_store [])))
       = 200
   \<and> body (fst (tiles_handler demo_env demo_pg demo_gis
         (tile_get ''/tiles/permits/5abc/0/0'' (Some ''2025-11-12'')) (quiet_world demo_tile_store [])))
       = TileBody [1]
   \<and> take 2 (trace (snd (tiles_handler demo_env demo_pg demo_gis
         (tile_get ''/tiles/permits/5abc/0/0'' (Some ''2025-11-12'')) (quiet_world demo_tile_store []))))
       = [CacheLookup (''permits'', 5, 0, 0, ''2025-11-12'', ''2025-11-12''),
          TileRpc 5 0 0 (Some ''2025-11-12'')]"
  by (simp add: tiles_handler_def validate_request_def tile_get_def demo_env_def falsy_def
      path_parts_def parseInt10_def js_whitespace_def is_digit_def decimal_value_def
      date_regex_def coalesce_text_def serve_tile_def cache_lookup_def pop_fault_def
      log_event_def quiet_world_def cache_single_def tile_rpc_def demo_tile_bytes
      rpc_data_empty_def bytea_out_def hex_digit_def hexToArrayBuffer_def backslash_def
      parseInt16_def to_uint8_def hex_value_def hex_val_def js_whitespace_def demo_tile_store_cache Let_def cache_write_def
      respond_tile_def)

text \<open>
  C9, amended.  For a request other than OPTIONS, on a function whose two Supabase
  settings are present, whose path holds \<open>tiles/permits/zs/xs/ys\<close> after the first
  segment \<open>tiles\<close>: if \<open>parseInt\<close> gives NaN for one of the three segments (it holds no
  digit after optional blanks and a sign), or gives a zoom outside [0, 16] or an x or y
  outside [0, 2^zoom), the response has status 400 and the world is untouched: no cache
  lookup, no generator call, no cache write.  A segment that starts with digits is read
  as those digits.
\<close>

theorem invalid_coordinates_rejected:
  assumes "req_method req \<noteq> ''OPTIONS''"
      and "\<not> falsy (SUPABASE_URL env)" and "\<not> falsy (SUPABASE_SERVICE_ROLE_KEY env)"
      and "path_parts (req_pathname req) = pre @ ''tiles'' # ''permits'' # zs # xs # ys # post"
      and "''tiles'' \<notin> set pre"
      and "parseInt10 zs = None \<or> parseInt10 xs = None \<or> parseInt10 ys = None
           \<or> (\<exists>z x y. parseInt10 zs = Some z \<and> parseInt10 xs = Some x \<and> parseInt10 ys = Some y
                \<and> (z < 0 \<or> 16 < z \<or> x < 0 \<or> 2 ^ nat z \<le> x \<or> y < 0 \<or> 2 ^ nat z \<le> y))"
  shows "status (fst (tiles_handler env pg gis req w)) = 400
         \<and> snd (tiles_handler env pg gis req w) = w"
proof -
  note v = validate_path[OF assms(1-5)]
  from assms(6) have "\<exists>msg. validate_request env req = Inl (bad_request msg)"
    unfolding v by (auto split: option.splits)
  then obtain msg where "validate_request env req = Inl (bad_request msg)" ..
  then show ?thesis by (simp add: tiles_handler_def bad_request_def)
qed

theorem invalid_coordinates_rejected_witness:
  "path_parts ''/functions/v1/tiles/permits/20/0/0''
     = [''functions'', ''v1''] @ ''tiles'' # ''permits'' # ''20'' # ''0'' # ''0'' # []
   \<and> parseInt10 ''20'' = Some 20 \<and> parseInt10 ''0'' = Some 0
   \<and> status (fst (tiles_handler demo_env demo_pg demo_gis
         (tile_get ''/functions/v1/tiles/permits/20/0/0'' None) (quiet_world demo_tile_store [])))
       = 400
   \<and> snd (tiles_handler demo_env demo_pg demo_gis
         (tile_get ''/functions/v1/tiles/permits/20/0/0'' None) (quiet_world demo_tile_store []))
       = quiet_world demo_tile_store []"
  using invalid_coordinates_rejected
    [where req = "tile_get ''/functions/v1/tiles/permits/20/0/0'' None" and env = demo_env
       and pre = "[''functions'', ''v1'']" and zs = "''20''" and xs = "''0''" and ys = "''0''"
       and post = "[]" and pg = demo_pg and gis = demo_gis and w = "quiet_world demo_tile_store []"]
  by (simp add: tile_get_def demo_env_def falsy_def path_parts_def parseInt10_def
      js_whitespace_def is_digit_def decimal_value_def)

lemma first_request:
  "db (snd (tiles_handler demo_env demo_pg listing_gis
                         (tile_get ''/tiles/permits/5/0/0'' (Some ''2025-11-12''))
                         (quiet_world demo_tile_store [])))
   = demo_tile_store\<lparr>mvt_cache :=
       [\<lparr>c_layer = ''permits'', c_z = 5, c_x = 0, c_y = 0, c_since = ''2025-11-12'',
         c_until = ''2025-11-12'', c_mvt = bytea_out [49], c_updated_at = 1000\<rparr>]\<rparr>"
  by (simp add: tile_eval demo_tile_store_def empty_store_def upsert_by.simps)

lemma stale_store_rows:
  "map (\<lambda>p. (p_id p, p_permit_issuance_date p, p_geom_4326 p)) (dob_permits stale_store)
     = [(''P1'', None, Some (ST_Point 73 40))]
   \<and> mvt_cache stale_store
     = [\<lparr>c_layer = ''permits'', c_z = 5, c_x = 0, c_y = 0, c_since = ''2025-11-12'',
         c_until = ''2025-11-12'', c_mvt = bytea_out [49], c_updated_at = 1000\<rparr>]"
  unfolding stale_store_def first_request
  by (simp add: upsert_eval scenario_a_def demo_tile_store_def demo_permit_def ST_Point_def)

lemma stale_store_cache:
  "mvt_cache stale_store
     = [\<lparr>c_layer = ''permits'', c_z = 5, c_x = 0, c_y = 0, c_since = ''2025-11-12'',
         c_until = ''2025-11-12'', c_mvt = bytea_out [49], c_updated_at = 1000\<rparr>]"
  using stale_store_rows by (rule conjunct2)

lemma stale_store_permits:
  "map (\<lambda>p. (p_id p, p_permit_issuance_date p, p_geom_4326 p)) (dob_permits stale_store)
     = [(''P1'', None, Some (ST_Point 73 40))]"
  using stale_store_rows by (rule conjunct1)

lemma stale_generation:
  "dob_permit_tiles demo_pg listing_gis 5 0 0 (Some ''2025-11-12'') stale_store = Inr []"
proof -
  from stale_store_permits obtain p where p: "dob_permits stale_store = [p]"
    and "p_permit_issuance_date p = None"
    by (cases "dob_permits stale_store") auto
  then show ?thesis
    by (simp add: dob_permit_tiles_def cast_text_def demo_pg_def demo_date_in_def date_regex_def
        is_digit_def decimal_value_def tile_src_def List.map_filter_def date_matches_def
        listing_gis_def demo_gis_def mvtgeom_def split: option.splits)
qed

lemma stale_lookup:
  "cache_lookup (''permits'', 5, 0, 0, ''2025-11-12'', ''2025-11-12'') (quiet_world stale_store [])
     = (Some (bytea_out [49]),
        (quiet_world stale_store [])
          \<lparr>trace := [CacheLookup (''permits'', 5, 0, 0, ''2025-11-12'', ''2025-11-12'')]\<rparr>)"
  by (simp add: cache_lookup_def pop_fault_def log_event_def quiet_world_def cache_single_def
      cache_key_of_def stale_store_cache bytea_out_def)

lemma dated_validate:
  "validate_request demo_env (tile_get ''/tiles/permits/5/0/0'' (Some ''2025-11-12''))
     = Inr (5, 0, 0, ''2025-11-12'')"
  by (simp add: validate_request_def tile_get_def demo_env_def falsy_def
      path_parts_def parseInt10_def js_whitespace_def is_digit_def decimal_value_def
      date_regex_def coalesce_text_def)

text \<open>
  C10.  The claim: through the endpoint the date filter of the generator is always
  applied (a missing date is the current date, so the generator is never called without
  one), and a permit without an issuance date never appears in a tile that the endpoint
  serves.  The first half holds.  The second does not: the handler answers from
  \<open>mvt_cache\<close> first, and no statement of the repository removes a cached tile when a
  permit changes (\<open>clean_mvt_cache\<close> goes by age alone).  After a tile with the permit
  P1 has been cached, a page that carries P1 without an issuance date sets the column to
  NULL; the generator now gives the empty tile, and the endpoint still serves the cached
  one, with the feature of P1.
\<close>

theorem stale_tile_counterexample:
  "map (\<lambda>p. (p_id p, p_permit_issuance_date p)) (dob_permits stale_store) = [(''P1'', None)]
   \<and> map c_mvt (mvt_cache stale_store) = [bytea_out [49]]
   \<and> dob_permit_tiles demo_pg listing_gis 5 0 0 (Some ''2025-11-12'') stale_store = Inr []
   \<and> status (fst (tiles_handler demo_env demo_pg listing_gis
         (tile_get ''/tiles/permits/5/0/0'' (Some ''2025-11-12'')) (quiet_world stale_store []))) = 200
   \<and> body (fst (tiles_handler demo_env demo_pg listing_gis
         (tile_get ''/tiles/permits/5/0/0'' (Some ''2025-11-12'')) (quiet_world stale_store [])))
       = TileBody [49]
   \<and> trace (snd (tiles_handler demo_env demo_pg listing_gis
         (tile_get ''/tiles/permits/5/0/0'' (Some ''2025-11-12'')) (quiet_world stale_store [])))
       = [CacheLookup (''permits'', 5, 0, 0, ''2025-11-12'', ''2025-11-12'')]"
proof -
  have h: "tiles_handler demo_env demo_pg listing_gis
         (tile_get ''/tiles/permits/5/0/0'' (Some ''2025-11-12'')) (quiet_world stale_store [])
       = (respond_tile (tile_get ''/tiles/permits/5/0/0'' (Some ''2025-11-12'')) [49],
          (quiet_world stale_store [])
          \<lparr>trace := [CacheLookup (''permits'', 5, 0, 0, ''2025-11-12'', ''2025-11-12'')]\<rparr>)"
    by (simp add: tiles_handler_def dated_validate serve_tile_def stale_lookup hex_round_trip)
  have r: "status (respond_tile (tile_get ''/tiles/permits/5/0/0'' (Some ''2025-11-12'')) [49]) = 200"
    "body (respond_tile (tile_get ''/tiles/permits/5/0/0'' (Some ''2025-11-12'')) [49]) = TileBody [49]"
    by (simp_all add: respond_tile_def tile_get_def Let_def)
  have p: "map (\<lambda>p. (p_id p, p_permit_issuance_date p)) (dob_permits stale_store) = [(''P1'', None)]"
    using stale_store_permits by (cases "dob_permits stale_store") auto
  have c: "map c_mvt (mvt_cache stale_store) = [bytea_out [49]]"
    by (simp add: stale_store_cache)
  from p c stale_generation r show ?thesis unfolding h by simp
qed

text \<open>
  C10, amended.  A request that passes validation carries the date parameter when it is
  given and not empty, the current date otherwise, and the handler never calls the
  generator without a date.  On a cache miss the response is made of the bytes that the
  encoder gives for the permits whose issuance date is not NULL and falls on that day,
  as if the table had no other permit, and these are the bytes it caches.  On a cache
  hit the response is made of the cached bytes, without a generation.
\<close>

theorem endpoint_date_filter:
  "(validate_request env req = Inr (z, x, y, dateStr)
      \<longrightarrow> date_regex dateStr
          \<and> dateStr = (if falsy (req_date req) then now_iso_date env
                       else coalesce_text (req_date req)))
   \<and> (tiles_handler env pg gis req w = (resp, w')
      \<longrightarrow> (\<exists>es. trace w' = trace w @ es \<and> (\<forall>a b c. TileRpc a b c None \<notin> set es)))
   \<and> (validate_request env req = Inr (z, x, y, dateStr)
        \<and> cache_lookup (''permits'', z, x, y, dateStr, dateStr) w = (None, w1)
        \<and> pop_fault (log_event (TileRpc z x y (Some dateStr)) w1) = (False, w2)
        \<and> date_in pg dateStr = Some day
        \<and> bytes = (case ST_AsMVT gis
                            (mvtgeom gis z x y
                               (tile_src pg gis z x y None
                                  (filter (\<lambda>p. map_option (timestamptz_to_date pg)
                                                  (p_permit_issuance_date p) = Some day)
                                     (dob_permits (db w)))))
                            ''permits'' 4096 ''geom'' of
                      None \<Rightarrow> []
                    | Some b \<Rightarrow> b)
      \<longrightarrow> tiles_handler env pg gis req w
            = (respond_tile req bytes,
               if bytes = [] then w2
               else cache_write env (''permits'', z, x, y, dateStr, dateStr) (bytea_out bytes) w2)
          \<and> (body (fst (tiles_handler env pg gis req w)) = TileBody bytes
              \<or> status (fst (tiles_handler env pg gis req w)) = 304))
   \<and> (validate_request env rq = Inr (zh, xh, yh, dh)
        \<and> cache_lookup (''permits'', zh, xh, yh, dh, dh) wh = (Some mvt, wh1)
      \<longrightarrow> tiles_handler env pg gis rq wh = (respond_tile rq (hexToArrayBuffer mvt), wh1)
          \<and> db wh1 = db wh \<and> trace wh1 = trace wh @ [CacheLookup (''permits'', zh, xh, yh, dh, dh)])"
proof -
  have p1: "validate_request env req = Inr (z, x, y, dateStr)
      \<longrightarrow> date_regex dateStr
          \<and> dateStr = (if falsy (req_date req) then now_iso_date env
                       else coalesce_text (req_date req))"
    using validate_date by blast
  have p2: "tiles_handler env pg gis req w = (resp, w')
      \<longrightarrow> (\<exists>es. trace w' = trace w @ es \<and> (\<forall>a b c. TileRpc a b c None \<notin> set es))"
  proof
    assume h: "tiles_handler env pg gis req w = (resp, w')"
    show "\<exists>es. trace w' = trace w @ es \<and> (\<forall>a b c. TileRpc a b c None \<notin> set es)"
    proof (cases "validate_request env req")
      case (Inl r)
      with h have "w' = w" by (simp add: tiles_handler_def)
      then show ?thesis by simp
    next
      case (Inr v)
      obtain z0 x0 y0 d0 where v: "v = (z0, x0, y0, d0)" by (cases v)
      with h Inr have "serve_tile env pg gis req z0 x0 y0 d0 w = (resp, w')"
        by (simp add: tiles_handler_def)
      then show ?thesis by (rule serve_tile_trace)
    qed
  qed
  have p3: "validate_request env req = Inr (z, x, y, dateStr)
        \<and> cache_lookup (''permits'', z, x, y, dateStr, dateStr) w = (None, w1)
        \<and> pop_fault (log_event (TileRpc z x y (Some dateStr)) w1) = (False, w2)
        \<and> date_in pg dateStr = Some day
        \<and> bytes = (case ST_AsMVT gis
                            (mvtgeom gis z x y
                               (tile_src pg gis z x y None
                                  (filter (\<lambda>p. map_option (timestamptz_to_date pg)
                                                  (p_permit_issuance_date p) = Some day)
                                     (dob_permits (db w)))))
                            ''permits'' 4096 ''geom'' of
                      None \<Rightarrow> []
                    | Some b \<Rightarrow> b)
      \<longrightarrow> tiles_handler env pg gis req w
            = (respond_tile req bytes,
               if bytes = [] then w2
               else cache_write env (''permits'', z, x, y, dateStr, dateStr) (bytea_out bytes) w2)
          \<and> (body (fst (tiles_handler env pg gis req w)) = TileBody bytes
              \<or> status (fst (tiles_handler env pg gis req w)) = 304)"
  proof (intro impI, elim conjE)
    assume v: "validate_request env req = Inr (z, x, y, dateStr)"
      and cl: "cache_lookup (''permits'', z, x, y, dateStr, dateStr) w = (None, w1)"
      and pf: "pop_fault (log_event (TileRpc z x y (Some dateStr)) w1) = (False, w2)"
      and di: "date_in pg dateStr = Some day"
      and b: "bytes = (case ST_AsMVT gis
                            (mvtgeom gis z x y
                               (tile_src pg gis z x y None
                                  (filter (\<lambda>p. map_option (timestamptz_to_date pg)
                                                  (p_permit_issuance_date p) = Some day)
                                     (dob_permits (db w)))))
                            ''permits'' 4096 ''geom'' of
                      None \<Rightarrow> []
                    | Some b \<Rightarrow> b)"
    have gen: "dob_permit_tiles pg gis z x y (Some dateStr) (db w) = Inr bytes"
      unfolding b by (simp add: dob_permit_tiles_def cast_text_def di tile_src_of_dated)
    have th: "tiles_handler env pg gis req w
            = (respond_tile req bytes,
               if bytes = [] then w2
               else cache_write env (''permits'', z, x, y, dateStr, dateStr) (bytea_out bytes) w2)"
      using v serve_tile_miss[OF cl pf gen] by (simp add: tiles_handler_def)
    moreover have "body (fst (tiles_handler env pg gis req w)) = TileBody bytes
              \<or> status (fst (tiles_handler env pg gis req w)) = 304"
      unfolding th fst_conv by (rule respond_tile_body)
    ultimately show "tiles_handler env pg gis req w
            = (respond_tile req bytes,
               if bytes = [] then w2
               else cache_write env (''permits'', z, x, y, dateStr, dateStr) (bytea_out bytes) w2)
          \<and> (body (fst (tiles_handler env pg gis req w)) = TileBody bytes
              \<or> status (fst (tiles_handler env pg gis req w)) = 304)"
      by (rule conjI)
  qed
  have p4: "validate_request env rq = Inr (zh, xh, yh, dh)
        \<and> cache_lookup (''permits'', zh, xh, yh, dh, dh) wh = (Some mvt, wh1)
      \<longrightarrow> tiles_handler env pg gis rq wh = (respond_tile rq (hexToArrayBuffer mvt), wh1)
          \<and> db wh1 = db wh \<and> trace wh1 = trace wh @ [CacheLookup (''permits'', zh, xh, yh, dh, dh)]"
  proof (intro impI, elim conjE)
    assume v: "validate_request env rq = Inr (zh, xh, yh, dh)"
      and cl: "cache_lookup (''permits'', zh, xh, yh, dh, dh) wh = (Some mvt, wh1)"
    have "tiles_handler env pg gis rq wh = (respond_tile rq (hexToArrayBuffer mvt), wh1)"
      using v serve_tile_hit[OF cl] by (simp add: tiles_handler_def)
    with cache_lookup_frame[OF cl]
    show "tiles_handler env pg gis rq wh = (respond_tile rq (hexToArrayBuffer mvt), wh1)
          \<and> db wh1 = db wh \<and> trace wh1 = trace wh @ [CacheLookup (''permits'', zh, xh, yh, dh, dh)]"
      by simp
  qed
  from p1 p2 p3 p4 show ?thesis by (intro conjI)
qed

lemma demo_default_date:
  "validate_request demo_env (tile_get ''/tiles/permits/5/0/0'' None) = Inr (5, 0, 0, ''2025-11-12'')"
  by (simp add: validate_request_def tile_get_def demo_env_def falsy_def
      path_parts_def parseInt10_def js_whitespace_def is_digit_def decimal_value_def
      date_regex_def coalesce_text_def)

lemma mixed_lookup:
  "cache_lookup (''permits'', 5, 0, 0, ''2025-11-12'', ''2025-11-12'') (quiet_world demo_mixed_store [])
     = (None,
        (quiet_world demo_mixed_store [])
          \<lparr>trace := [CacheLookup (''permits'', 5, 0, 0, ''2025-11-12'', ''2025-11-12'')]\<rparr>)"
  by (simp add: cache_lookup_def pop_fault_def log_event_def quiet_world_def cache_single_def
      demo_mixed_store_cache)

lemma mixed_dated_bytes:
  "(case ST_AsMVT listing_gis
           (mvtgeom listing_gis 5 0 0
              (tile_src demo_pg listing_gis 5 0 0 None
                 (filter (\<lambda>p. map_option (timestamptz_to_date demo_pg) (p_permit_issuance_date p)
                                = Some 20251112)
                    (dob_permits (db (quiet_world demo_mixed_store []))))))
           ''permits'' 4096 ''geom'' of
      None \<Rightarrow> []
    | Some b \<Rightarrow> b) = [49]"
  by (simp add: demo_pg_def tile_src_def List.map_filter_def date_matches_def quiet_world_def
      demo_mixed_store_def empty_store_def demo_permit_def populate_geom_from_coords_def
      demo_gis_def listing_gis_def mvtgeom_def)

theorem endpoint_date_filter_witness:
  "validate_request demo_env (tile_get ''/tiles/permits/5/0/0'' None) = Inr (5, 0, 0, ''2025-11-12'')
   \<and> map p_permit_issuance_date (dob_permits demo_mixed_store) = [Some 2025111209, None]
   \<and> body (fst (tiles_handler demo_env demo_pg listing_gis (tile_get ''/tiles/permits/5/0/0'' None)
                   (quiet_world demo_mixed_store []))) = TileBody [49]
   \<and> trace (snd (tiles_handler demo_env demo_pg listing_gis (tile_get ''/tiles/permits/5/0/0'' None)
                   (quiet_world demo_mixed_store [])))
       = [CacheLookup (''permits'', 5, 0, 0, ''2025-11-12'', ''2025-11-12''),
          TileRpc 5 0 0 (Some ''2025-11-12''),
          CacheWrite (''permits'', 5, 0, 0, ''2025-11-12'', ''2025-11-12'') (bytea_out [49])]
   \<and> body (fst (tiles_handler demo_env demo_pg listing_gis
         (tile_get ''/tiles/permits/5/0/0'' (Some ''2025-11-12'')) (quiet_world stale_store [])))
       = TileBody [49]"
proof -
  note t = endpoint_date_filter
    [where env = demo_env and pg = demo_pg and gis = listing_gis
       and req = "tile_get ''/tiles/permits/5/0/0'' None"
       and z = 5 and x = 0 and y = 0 and dateStr = "''2025-11-12''"
       and w = "quiet_world demo_mixed_store []"
       and ?w1.0 = "(quiet_world demo_mixed_store [])
          \<lparr>trace := [CacheLookup (''permits'', 5, 0, 0, ''2025-11-12'', ''2025-11-12'')]\<rparr>"
       and ?w2.0 = "(quiet_world demo_mixed_store [])
          \<lparr>trace := [CacheLookup (''permits'', 5, 0, 0, ''2025-11-12'', ''2025-11-12''),
                     TileRpc 5 0 0 (Some ''2025-11-12'')]\<rparr>"
       and day = 20251112 and bytes = "[49]"
       and rq = "tile_get ''/tiles/permits/5/0/0'' (Some ''2025-11-12'')"
       and zh = 5 and xh = 0 and yh = 0 and dh = "''2025-11-12''"
       and wh = "quiet_world stale_store []" and mvt = "bytea_out [49]"
       and ?wh1.0 = "(quiet_world stale_store [])
          \<lparr>trace := [CacheLookup (''permits'', 5, 0, 0, ''2025-11-12'', ''2025-11-12'')]\<rparr>"]
  have pf: "pop_fault (log_event (TileRpc 5 0 0 (Some ''2025-11-12''))
               ((quiet_world demo_mixed_store [])
          \<lparr>trace := [CacheLookup (''permits'', 5, 0, 0, ''2025-11-12'', ''2025-11-12'')]\<rparr>))
            = (False, (quiet_world demo_mixed_store [])
          \<lparr>trace := [CacheLookup (''permits'', 5, 0, 0, ''2025-11-12'', ''2025-11-12''),
                     TileRpc 5 0 0 (Some ''2025-11-12'')]\<rparr>)"
    by (simp add: pop_fault_def log_event_def quiet_world_def)
  have di: "date_in demo_pg ''2025-11-12'' = Some 20251112"
    by (simp add: demo_pg_def demo_date_in_def date_regex_def is_digit_def decimal_value_def)
  from t have miss: "tiles_handler demo_env demo_pg listing_gis (tile_get ''/tiles/permits/5/0/0'' None)
                   (quiet_world demo_mixed_store [])
      = (respond_tile (tile_get ''/tiles/permits/5/0/0'' None) [49],
         cache_write demo_env (''permits'', 5, 0, 0, ''2025-11-12'', ''2025-11-12'') (bytea_out [49])
           ((quiet_world demo_mixed_store [])
          \<lparr>trace := [CacheLookup (''permits'', 5, 0, 0, ''2025-11-12'', ''2025-11-12''),
                     TileRpc 5 0 0 (Some ''2025-11-12'')]\<rparr>))"
    using demo_default_date mixed_lookup pf di mixed_dated_bytes by simp
  from t have hit: "tiles_handler demo_env demo_pg listing_gis
         (tile_get ''/tiles/permits/5/0/0'' (Some ''2025-11-12'')) (quiet_world stale_store [])
      = (respond_tile (tile_get ''/tiles/permits/5/0/0'' (Some ''2025-11-12''))
           (hexToArrayBuffer (bytea_out [49])),
         (quiet_world stale_store [])
          \<lparr>trace := [CacheLookup (''permits'', 5, 0, 0, ''2025-11-12'', ''2025-11-12'')]\<rparr>)"
    using dated_validate stale_lookup by simp
  have b1: "body (respond_tile (tile_get ''/tiles/permits/5/0/0'' None) [49]) = TileBody [49]"
    "body (respond_tile (tile_get ''/tiles/permits/5/0/0'' (Some ''2025-11-12'')) [49]) = TileBody [49]"
    by (simp_all add: respond_tile_def tile_get_def Let_def)
  have tr: "trace (cache_write demo_env (''permits'', 5, 0, 0, ''2025-11-12'', ''2025-11-12'') (bytea_out [49])
           ((quiet_world demo_mixed_store [])
          \<lparr>trace := [CacheLookup (''permits'', 5, 0, 0, ''2025-11-12'', ''2025-11-12''),
                     TileRpc 5 0 0 (Some ''2025-11-12'')]\<rparr>))
       = [CacheLookup (''permits'', 5, 0, 0, ''2025-11-12'', ''2025-11-12''),
          TileRpc 5 0 0 (Some ''2025-11-12''),
          CacheWrite (''permits'', 5, 0, 0, ''2025-11-12'', ''2025-11-12'') (bytea_out [49])]"
    by (simp add: cache_write_frame)
  have ds: "map p_permit_issuance_date (dob_permits demo_mixed_store) = [Some 2025111209, None]"
    by (simp add: demo_mixed_store_def demo_permit_def populate_geom_from_coords_def)
  from demo_default_date ds b1 tr show ?thesis
    unfolding miss hit hex_round_trip by simp
qed


section \<open>Claims about the bulk upsert's rows\<close>

text \<open>
  C3.  The claim: within a page, records sharing a role and a non-null business name
  give one Entity row, first seen wins, and records without a business name are never
  deduplicated.  The code selects \<open>distinct on (entity_type, business_name)\<close> from the
  candidates \<open>order by entity_type, business_name nulls last, full_name\<close>: the row kept
  for a key is the first in that order, so the smallest full name wins, not the first
  seen; and \<open>distinct on\<close> counts NULLs as equal, so the candidates of one role
  without a business name collapse to one row as well.
\<close>

theorem entity_dedup_counterexample:
  "(case upsert_dob_permits demo_pg [acme_zed, acme_al] empty_store of
      Inl e \<Rightarrow> False
    | Inr (r, s') \<Rightarrow>
        map (\<lambda>e. (e_entity_type e, e_business_name e, e_full_name e)) (dob_entities s')
          = [(''owner'', Some ''ACME'', Some ''Al'')])
   \<and> (case upsert_dob_permits demo_pg [owner_bob, owner_amy] empty_store of
      Inl e \<Rightarrow> False
    | Inr (r, s') \<Rightarrow>
        map (\<lambda>e. (e_entity_type e, e_business_name e, e_full_name e)) (dob_entities s')
          = [(''owner'', None, Some ''Amy'')])"
  by (simp add: upsert_eval acme_zed_def acme_al_def owner_bob_def owner_amy_def)

text \<open>
  C3, amended.  On a store that satisfies the unique index, after a page has been
  applied, a role and non-null business name that a candidate of the page carries is
  the key of exactly one Entity row, the unique index still holds, and that row, whether
  the page inserted it or the store had it before, has the eight columns that the upsert
  writes (full name, license type and number, phone, address, city, state, zip) of a
  candidate with that key which is least in the order of the select (for one key: least
  in full name).
\<close>

theorem entity_dedup:
  assumes "entities_unique (dob_entities s)"
      and "upsert_dob_permits pg rows s = Inr (res, s')"
      and "stage pg rows = Inr st"
      and "c \<in> set (entity_candidates st)"
      and "e_business_name c = Some b"
  shows "length (filter (\<lambda>e. entity_key e = entity_key c) (dob_entities s')) = 1
         \<and> entities_unique (dob_entities s')
         \<and> (\<exists>w \<in> set (entity_candidates st).
               entity_key w = entity_key c
               \<and> (\<forall>c' \<in> set (entity_candidates st).
                     entity_key c' = entity_key c \<longrightarrow> entity_order w \<le> entity_order c')
               \<and> (\<forall>e \<in> set (dob_entities s').
                     entity_key e = entity_key c \<longrightarrow>
                       e_full_name e = e_full_name w \<and> e_license_type e = e_license_type w
                       \<and> e_license_number e = e_license_number w \<and> e_phone e = e_phone w
                       \<and> e_address e = e_address w \<and> e_city e = e_city w
                       \<and> e_state e = e_state w \<and> e_zip e = e_zip w))"
proof -
  from upsert_dob_permits_parts[OF assms(2)] assms(3)
  have e': "dob_entities s' = entities_upsert st (dob_entities s)" by auto
  from entity_rows_key[OF assms(4)] obtain w where
    w: "w \<in> set (entity_rows st)" "entity_key w = entity_key c" "w \<in> set (entity_candidates st)"
    by blast
  have wb: "e_business_name w \<noteq> None" using w(2) assms(5) by (simp add: entity_key_def)
  have st: "settled w (dob_entities s')"
    unfolding e' entities_upsert_def
    by (rule foldl_entities_all_settled[OF entity_rows_distinct w(1) wb])
  have u: "entities_unique (dob_entities s')"
    unfolding e' by (rule unique_entities_upsert[OF assms(1)])
  from st obtain x where x: "x \<in> set (dob_entities s')" "entity_key x = entity_key c"
    using w(2) by (auto simp: settled_def list_ex_iff entity_conflict_def)
  have xb: "e_business_name x \<noteq> None" using x(2) assms(5) by (simp add: entity_key_def)
  let ?nn = "filter (\<lambda>e. e_business_name e \<noteq> None) (dob_entities s')"
  have same: "filter (\<lambda>e. entity_key e = entity_key c) (dob_entities s')
                = filter (\<lambda>e. entity_key e = entity_key c) ?nn"
  proof -
    have h: "\<And>e. entity_key e = entity_key c \<Longrightarrow> e_business_name e \<noteq> None"
      using assms(5) by (simp add: entity_key_def)
    have "filter (\<lambda>e. entity_key e = entity_key c) ?nn
            = filter (\<lambda>e. e_business_name e \<noteq> None \<and> entity_key e = entity_key c) (dob_entities s')"
      by (simp only: filter_filter)
    also have "\<dots> = filter (\<lambda>e. entity_key e = entity_key c) (dob_entities s')"
      by (rule filter_cong[OF refl]) (use h in blast)
    finally show ?thesis by (rule sym)
  qed
  have "x \<in> set ?nn" using x(1) xb by simp
  from distinct_count_one[OF u[unfolded entities_unique_def] this]
  have one: "length (filter (\<lambda>e. entity_key e = entity_key c) (dob_entities s')) = 1"
    unfolding same x(2) .
  have win: "\<forall>c' \<in> set (entity_candidates st).
                     entity_key c' = entity_key c \<longrightarrow> entity_order w \<le> entity_order c'"
    using entity_rows_winner[OF w(1)] w(2) by auto
  have fp: "\<And>e. e \<in> set (dob_entities s') \<Longrightarrow> entity_key e = entity_key c
                \<Longrightarrow> entity_set_excluded w e = e"
    using st wb w(2) by (auto simp: settled_def list_all_iff entity_conflict_def)
  have cols: "\<forall>e \<in> set (dob_entities s').
                     entity_key e = entity_key c \<longrightarrow>
                       e_full_name e = e_full_name w \<and> e_license_type e = e_license_type w
                       \<and> e_license_number e = e_license_number w \<and> e_phone e = e_phone w
                       \<and> e_address e = e_address w \<and> e_city e = e_city w
                       \<and> e_state e = e_state w \<and> e_zip e = e_zip w"
  proof (intro ballI impI)
    fix e assume "e \<in> set (dob_entities s')" "entity_key e = entity_key c"
    from excluded_columns[OF fp[OF this]]
    show "e_full_name e = e_full_name w \<and> e_license_type e = e_license_type w
                       \<and> e_license_number e = e_license_number w \<and> e_phone e = e_phone w
                       \<and> e_address e = e_address w \<and> e_city e = e_city w
                       \<and> e_state e = e_state w \<and> e_zip e = e_zip w" .
  qed
  from w(3) w(2) win cols have
    "\<exists>w \<in> set (entity_candidates st).
               entity_key w = entity_key c
               \<and> (\<forall>c' \<in> set (entity_candidates st).
                     entity_key c' = entity_key c \<longrightarrow> entity_order w \<le> entity_order c')
               \<and> (\<forall>e \<in> set (dob_entities s').
                     entity_key e = entity_key c \<longrightarrow>
                       e_full_name e = e_full_name w \<and> e_license_type e = e_license_type w
                       \<and> e_license_number e = e_license_number w \<and> e_phone e = e_phone w
                       \<and> e_address e = e_address w \<and> e_city e = e_city w
                       \<and> e_state e = e_state w \<and> e_zip e = e_zip w)"
    by (intro bexI[of _ w] conjI)
  with one u show ?thesis by (intro conjI)
qed

lemma zed_page:
  "map (\<lambda>e. (entity_key e, e_full_name e)) (dob_entities zed_store)
     = [((''owner'', Some ''ACME''), Some ''Zed'')]"
  by (simp add: zed_store_def upsert_eval acme_zed_def)

lemma al_stage:
  "\<exists>st. stage demo_pg [acme_al] = Inr st
        \<and> map (\<lambda>c. (entity_key c, e_full_name c)) (entity_candidates st)
            = [((''owner'', Some ''ACME''), Some ''Al'')]"
  by (simp add: upsert_eval acme_al_def)

lemma al_page:
  "\<exists>res s'. upsert_dob_permits demo_pg [acme_al] zed_store = Inr (res, s')"
  by (simp add: zed_store_def upsert_eval acme_zed_def acme_al_def)

theorem entity_dedup_witness:
  "entities_unique (dob_entities zed_store)
   \<and> map (\<lambda>e. (entity_key e, e_full_name e)) (dob_entities zed_store)
       = [((''owner'', Some ''ACME''), Some ''Zed'')]
   \<and> (\<exists>res s'. upsert_dob_permits demo_pg [acme_al] zed_store = Inr (res, s')
        \<and> map (\<lambda>e. (entity_key e, e_full_name e))
              (filter (\<lambda>e. entity_key e = (''owner'', Some ''ACME'')) (dob_entities s'))
            = [((''owner'', Some ''ACME''), Some ''Al'')])"
proof -
  from al_stage obtain st where st0: "stage demo_pg [acme_al] = Inr st
        \<and> map (\<lambda>c. (entity_key c, e_full_name c)) (entity_candidates st)
            = [((''owner'', Some ''ACME''), Some ''Al'')]" ..
  from st0 have st: "stage demo_pg [acme_al] = Inr st" by (rule conjunct1)
  from st0 have ks: "map (\<lambda>c. (entity_key c, e_full_name c)) (entity_candidates st)
            = [((''owner'', Some ''ACME''), Some ''Al'')]" by (rule conjunct2)
  from ks obtain c where cs: "entity_candidates st = [c]"
    by (cases "entity_candidates st") auto
  with ks have k: "entity_key c = (''owner'', Some ''ACME'')" and n: "e_full_name c = Some ''Al''"
    by simp_all
  from k have b: "e_business_name c = Some ''ACME''" by (simp add: entity_key_def)
  have cin: "c \<in> set (entity_candidates st)" using cs by simp
  from al_page obtain res s' where
    u: "upsert_dob_permits demo_pg [acme_al] zed_store = Inr (res, s')"
    by (elim exE)
  have e: "entities_unique (dob_entities zed_store)"
    using zed_page by (auto simp: entities_unique_def)
  note d = entity_dedup[OF e u st cin b]
  from d have one: "length (filter (\<lambda>e. entity_key e = entity_key c) (dob_entities s')) = 1"
    by (rule conjunct1)
  from d obtain w where w: "w \<in> set (entity_candidates st)"
    and cols: "\<forall>e \<in> set (dob_entities s'). entity_key e = entity_key c \<longrightarrow>
                       e_full_name e = e_full_name w \<and> e_license_type e = e_license_type w
                       \<and> e_license_number e = e_license_number w \<and> e_phone e = e_phone w
                       \<and> e_address e = e_address w \<and> e_city e = e_city w
                       \<and> e_state e = e_state w \<and> e_zip e = e_zip w"
    by blast
  from w cs have wc: "w = c" by simp
  from one obtain x where x: "filter (\<lambda>e. entity_key e = entity_key c) (dob_entities s') = [x]"
    by (cases "filter (\<lambda>e. entity_key e = entity_key c) (dob_entities s')") auto
  then have "x \<in> set (filter (\<lambda>e. entity_key e = entity_key c) (dob_entities s'))" by simp
  then have xin: "x \<in> set (dob_entities s')" and xk: "entity_key x = entity_key c" by simp_all
  from cols xin xk wc have "e_full_name x = e_full_name c" by blast
  with n xk k x have "map (\<lambda>e. (entity_key e, e_full_name e))
              (filter (\<lambda>e. entity_key e = (''owner'', Some ''ACME'')) (dob_entities s'))
            = [((''owner'', Some ''ACME''), Some ''Al'')]" by simp
  with u have "\<exists>res s'. upsert_dob_permits demo_pg [acme_al] zed_store = Inr (res, s')
        \<and> map (\<lambda>e. (entity_key e, e_full_name e))
              (filter (\<lambda>e. entity_key e = (''owner'', Some ''ACME'')) (dob_entities s'))
            = [((''owner'', Some ''ACME''), Some ''Al'')]"
    by (intro exI conjI)
  with e zed_page show ?thesis by (intro conjI)
qed

text \<open>
  C4.  The claim: applying a page twice gives the same store in all four groups, and
  the second application reports nothing beyond the first.  The unique index of
  \<open>dob_entities\<close> covers only rows with a business name, by design ("multiple NULLs
  allowed"): a proposed row without one never conflicts, so every application inserts
  it again.
\<close>

theorem upsert_twice_counterexample:
  "(case upsert_dob_permits demo_pg [owner_bob] empty_store of
      Inl e \<Rightarrow> False
    | Inr (r1, s1) \<Rightarrow>
        (case upsert_dob_permits demo_pg [owner_bob] s1 of
           Inl e \<Rightarrow> False
         | Inr (r2, s2) \<Rightarrow>
             map e_full_name (dob_entities s1) = [Some ''Bob'']
             \<and> map e_full_name (dob_entities s2) = [Some ''Bob'', Some ''Bob'']
             \<and> dob_entities s2 \<noteq> dob_entities s1
             \<and> inserted r1 = 1 \<and> updated r1 = 0 \<and> inserted r2 = 0 \<and> updated r2 = 1))"
  by (simp add: upsert_eval owner_bob_def)

text \<open>
  C4, amended.  If a page is applied, applying it again succeeds and leaves buildings,
  permit details, permits, the entities with a business name, the sync state and the
  tile cache as they were; the entity table grows by one row for each row proposed
  without a business name; the second application reports no inserted row, every
  record of the page as updated, and the same maximum time stamp.
\<close>

theorem upsert_twice:
  assumes "upsert_dob_permits pg rows s = Inr (r1, s1)"
  shows "\<exists>r2 s2 st. upsert_dob_permits pg rows s1 = Inr (r2, s2) \<and> stage pg rows = Inr st
           \<and> dob_buildings s2 = dob_buildings s1
           \<and> dob_permit_details s2 = dob_permit_details s1
           \<and> dob_permits s2 = dob_permits s1
           \<and> dob_entities s2 = dob_entities s1 @ null_rows (length (dob_entities s1)) (entity_rows st)
           \<and> filter (\<lambda>e. e_business_name e \<noteq> None) (dob_entities s2)
               = filter (\<lambda>e. e_business_name e \<noteq> None) (dob_entities s1)
           \<and> dataset_sync_state s2 = dataset_sync_state s1 \<and> mvt_cache s2 = mvt_cache s1
           \<and> inserted r2 = 0 \<and> updated r2 = length rows \<and> max_updated r2 = max_updated r1"
proof -
  from upsert_dob_permits_parts[OF assms] obtain st ds ps where
    st: "stage pg rows = Inr st" and ds: "map_err (permit_detail_of pg) st = Inr ds" and
    ps: "map_err (permit_of pg) st = Inr ps" and d: "distinct (map p_id ps)" and
    b1: "dob_buildings s1 = buildings_upsert st (dob_buildings s)" and
    d1: "dob_permit_details s1 = foldl (\<lambda>t r. upsert_by d_permit_number r t) (dob_permit_details s)
                (distinct_on d_permit_number (List.map_filter (\<lambda>d. d) ds))" and
    e1: "dob_entities s1 = entities_upsert st (dob_entities s)" and
    p1: "dob_permits s1 = foldl (\<lambda>t r. upsert_by p_id (populate_geom_from_coords r) t) (dob_permits s) ps" and
    m1: "max_updated r1 = sql_max (map stg_updated_at st)"
    by blast
  note u2 = upsert_dob_permits_Inr[OF st ds ps d, of s1]
  have len: "length ps = length rows"
    using map_err_length[OF ps] map_err_length[of "stage_of pg" rows st] st by (simp add: stage_def)
  have ex: "\<And>r. r \<in> set ps \<Longrightarrow> permit_exists (dob_permits s1) r"
    unfolding p1 by (rule permits_foldl_exists[OF d])
  have ins: "length (filter (\<lambda>r. \<not> permit_exists (dob_permits s1) r) ps) = 0"
    using ex by simp
  have upd: "length (filter (permit_exists (dob_permits s1)) ps) = length rows"
    using ex len by simp
  have b2: "buildings_upsert st (dob_buildings s1) = dob_buildings s1"
    unfolding b1 by (rule buildings_upsert_twice)
  have d2: "foldl (\<lambda>t r. upsert_by d_permit_number r t) (dob_permit_details s1)
                (distinct_on d_permit_number (List.map_filter (\<lambda>d. d) ds)) = dob_permit_details s1"
    unfolding d1 by (rule foldl_upsert_twice) (rule distinct_distinct_on)
  have p2: "foldl (\<lambda>t r. upsert_by p_id (populate_geom_from_coords r) t) (dob_permits s1) ps = dob_permits s1"
    unfolding p1 by (rule permits_foldl_twice[OF d])
  have e2: "entities_upsert st (dob_entities s1)
              = dob_entities s1 @ null_rows (length (dob_entities s1)) (entity_rows st)"
    unfolding e1 by (rule entities_upsert_twice)
  show ?thesis
    unfolding u2 using st b2 d2 p2 e2 ins upd m1
    by (simp add: filter_null_rows del: not_None_eq)
qed

theorem upsert_twice_witness:
  "upsert_dob_permits demo_pg [scenario_a] empty_store
       = Inr (\<lparr>inserted = 1, updated = 0, max_updated = Some 20240102\<rparr>, scenario_a_store)
   \<and> (\<exists>r2 s2. upsert_dob_permits demo_pg [scenario_a] scenario_a_store = Inr (r2, s2)
         \<and> dob_permits s2 = dob_permits scenario_a_store
         \<and> dob_entities s2 = dob_entities scenario_a_store
         \<and> inserted r2 = 0 \<and> updated r2 = 1 \<and> max_updated r2 = Some 20240102)"
proof -
  from upsert_twice[OF scenario_a_upsert] obtain r2 s2 st where
    h: "upsert_dob_permits demo_pg [scenario_a] scenario_a_store = Inr (r2, s2)"
       "stage demo_pg [scenario_a] = Inr st"
       "dob_permits s2 = dob_permits scenario_a_store"
       "dob_entities s2 = dob_entities scenario_a_store
            @ null_rows (length (dob_entities scenario_a_store)) (entity_rows st)"
       "inserted r2 = 0" "updated r2 = length [scenario_a]"
       "max_updated r2 = max_updated \<lparr>inserted = 1, updated = 0, max_updated = Some 20240102\<rparr>"
    by blast
  have "entity_rows st = []"
    using h(2) by (auto simp: upsert_eval scenario_a_def)
  with h scenario_a_upsert show ?thesis by simp
qed

section \<open>Claims about the ingestion engine\<close>

text \<open>
  C1.  The claim: each page request is ordered by \<open>updated_at\<close> ascending and filtered
  by \<open>updated_at > rollingWatermark\<close>, and every upstream record above the starting
  watermark of the run is applied by exactly one page's bulk upsert before the run ends.
  The loop does filter each request by the rolling watermark, and it also sends
  \<open>$offset = page * PAGE_SIZE\<close>, counted from the start of the run.  From the second
  request on, Socrata applies the offset to the records that are above the rolling
  watermark, which the pages read so far are not: one page's worth of records is passed
  over for every page already read.  The theorem is what a historical run does, for any
  page size \<open>ps\<close> (\<open>dob_permits_sync\<close> is \<open>sync_with PAGE_SIZE\<close>), on a dataset of two
  full pages \<open>A\<close>, \<open>B\<close> and a short page \<open>C\<close> in strictly increasing order of
  \<open>updated_at\<close>: it requests and applies \<open>A\<close>, requests the records above the last
  instant of \<open>A\<close> at offset \<open>ps\<close>, receives and applies \<open>C\<close>, stores the last instant of
  \<open>C\<close> as the sync state and reports success.  No record of \<open>B\<close> is in an upsert call,
  and the watermark is now above all of them.
\<close>

theorem offset_skips_a_page:
  assumes env: "\<not> falsy (SUPABASE_URL env)" "\<not> falsy (SUPABASE_SERVICE_ROLE_KEY env)"
      and quiet: "supabase_faults w = []" "fetch_script w = []"
      and data: "socrata w = A @ B @ C"
      and sizes: "length A = ps" "length B = ps" "C \<noteq> []" "length C < ps"
      and stamps: "map (record_updated_at pg) A = map Some ta"
                  "map (record_updated_at pg) B = map Some tb"
                  "map (record_updated_at pg) C = map Some tc"
      and incr: "sorted_wrt (<) (0 # ta @ tb @ tc)"
      and up1: "upsert_dob_permits pg A (db w) = Inr (r1, s1)"
      and up2: "upsert_dob_permits pg C s1 = Inr (r2, s2)"
  shows "sync_with ps env pg \<lparr>sq_mode = Some ''historical'', sq_since = None, sq_until = None\<rparr> w
         = (\<lparr>sr_status = 200, sr_success = True, sr_mode = ''historical'',
             sr_totalProcessed = ps + length C,
             sr_totalInserted = inserted r1 + inserted r2,
             sr_totalUpdated = updated r1 + updated r2,
             sr_lastSyncedUpdatedAt = Some (last tc), sr_error = None\<rparr>,
            w\<lparr>db := s2\<lparr>dataset_sync_state :=
                        upsert_by fst (''ipu4-2q9a'', last tc) (dataset_sync_state s2)\<rparr>,
              trace := trace w @
                [PageRequest \<lparr>q_where_gt = 0, q_where_le = None, q_limit = ps, q_offset = 0\<rparr>,
                 UpsertPage A,
                 PageRequest \<lparr>q_where_gt = last ta, q_where_le = None, q_limit = ps, q_offset = ps\<rparr>,
                 UpsertPage C,
                 WriteSyncState (last tc)]\<rparr>)"
proof -
  note loop = sync_loop_two_pages[OF quiet data sizes stamps incr up1 up2]
  have rw: "read_watermark ''historical''
              \<lparr>sq_mode = Some ''historical'', sq_since = None, sq_until = None\<rparr> w = (Inr None, w)"
    by (simp add: read_watermark_def)
  have rp: "run_pages ps env pg ''historical''
              \<lparr>sq_mode = Some ''historical'', sq_since = None, sq_until = None\<rparr> None w
         = (\<lparr>sr_status = 200, sr_success = True, sr_mode = ''historical'',
             sr_totalProcessed = ps + length C,
             sr_totalInserted = inserted r1 + inserted r2,
             sr_totalUpdated = updated r1 + updated r2,
             sr_lastSyncedUpdatedAt = Some (last tc), sr_error = None\<rparr>,
            w\<lparr>db := s2\<lparr>dataset_sync_state :=
                        upsert_by fst (''ipu4-2q9a'', last tc) (dataset_sync_state s2)\<rparr>,
              trace := trace w @
                [PageRequest \<lparr>q_where_gt = 0, q_where_le = None, q_limit = ps, q_offset = 0\<rparr>,
                 UpsertPage A,
                 PageRequest \<lparr>q_where_gt = last ta, q_where_le = None, q_limit = ps, q_offset = ps\<rparr>,
                 UpsertPage C,
                 WriteSyncState (last tc)]\<rparr>)"
    using quiet
    by (simp add: run_pages_def loop write_sync_state_def pop_fault_def log_event_def Let_def
        del: sync_loop.simps)
  show ?thesis
    using env rw rp by (simp add: sync_with_def Let_def falsy_def coalesce_text_def)
qed

theorem offset_skips_a_page_witness:
  "sr_success (fst (sync_with 2 demo_env demo_pg historical
      (quiet_world empty_store
         [page_record ''P1'' ''1'', page_record ''P2'' ''2'', page_record ''P3'' ''3'',
          page_record ''P4'' ''4'', page_record ''P5'' ''5''])))
   \<and> sr_totalProcessed (fst (sync_with 2 demo_env demo_pg historical
      (quiet_world empty_store
         [page_record ''P1'' ''1'', page_record ''P2'' ''2'', page_record ''P3'' ''3'',
          page_record ''P4'' ''4'', page_record ''P5'' ''5'']))) = 3
   \<and> trace (snd (sync_with 2 demo_env demo_pg historical
      (quiet_world empty_store
         [page_record ''P1'' ''1'', page_record ''P2'' ''2'', page_record ''P3'' ''3'',
          page_record ''P4'' ''4'', page_record ''P5'' ''5''])))
      = [PageRequest \<lparr>q_where_gt = 0, q_where_le = None, q_limit = 2, q_offset = 0\<rparr>,
         UpsertPage [page_record ''P1'' ''1'', page_record ''P2'' ''2''],
         PageRequest \<lparr>q_where_gt = 2, q_where_le = None, q_limit = 2, q_offset = 2\<rparr>,
         UpsertPage [page_record ''P5'' ''5''],
         WriteSyncState 5]
   \<and> map p_id (dob_permits (db (snd (sync_with 2 demo_env demo_pg historical
      (quiet_world empty_store
         [page_record ''P1'' ''1'', page_record ''P2'' ''2'', page_record ''P3'' ''3'',
          page_record ''P4'' ''4'', page_record ''P5'' ''5''])))))
      = [''P1'', ''P2'', ''P5'']"
  using offset_skips_a_page
    [where ps = 2 and env = demo_env and pg = demo_pg
       and w = "quiet_world empty_store
         [page_record ''P1'' ''1'', page_record ''P2'' ''2'', page_record ''P3'' ''3'',
          page_record ''P4'' ''4'', page_record ''P5'' ''5'']"
       and A = "[page_record ''P1'' ''1'', page_record ''P2'' ''2'']"
       and B = "[page_record ''P3'' ''3'', page_record ''P4'' ''4'']"
       and C = "[page_record ''P5'' ''5'']"
       and ta = "[1, 2]" and tb = "[3, 4]" and tc = "[5]"
       and ?r1.0 = "fst (projr (upsert_dob_permits demo_pg
              [page_record ''P1'' ''1'', page_record ''P2'' ''2''] empty_store))"
       and ?s1.0 = "snd (projr (upsert_dob_permits demo_pg
              [page_record ''P1'' ''1'', page_record ''P2'' ''2''] empty_store))"
       and ?r2.0 = "fst (projr (upsert_dob_permits demo_pg [page_record ''P5'' ''5'']
              (snd (projr (upsert_dob_permits demo_pg
                 [page_record ''P1'' ''1'', page_record ''P2'' ''2''] empty_store)))))"
       and ?s2.0 = "snd (projr (upsert_dob_permits demo_pg [page_record ''P5'' ''5'']
              (snd (projr (upsert_dob_permits demo_pg
                 [page_record ''P1'' ''1'', page_record ''P2'' ''2''] empty_store)))))"]
  by (simp add: sync_eval upsert_eval historical_def empty_store_def page_record_def
      numeral_3_eq_3 numeral_2_eq_2)


text \<open>
  C2.  The claim: the persisted sync watermark is non-decreasing across successful
  runs, a failed run never advances it, a run with a \<open>since\<close> or an \<open>until\<close> never
  changes the persisted sync state, and only a fully successful run that used the stored
  watermark persists a new value.  The write is guarded by
  \<open>!sinceParam && !untilParam && (maxUpdatedAt || mode === 'historical')\<close> and stores
  \<open>maxUpdatedAt || new Date().toISOString()\<close>.  A historical run reads no watermark, and
  when it has seen no record it stores the clock: on an empty dataset at instant 1000 it
  stores 1000.  The incremental run that follows starts from the newest permit of the
  store (the epoch for an empty table), not from the stored value, and stores the newest
  instant it has seen: with one record of instant 5 upstream, the stored value goes from
  1000 to 5.
\<close>

theorem sync_state_counterexample:
  "sr_success (fst (dob_permits_sync demo_env demo_pg historical (quiet_world empty_store [])))
   \<and> trace (snd (dob_permits_sync demo_env demo_pg historical (quiet_world empty_store [])))
       = [PageRequest \<lparr>q_where_gt = 0, q_where_le = None, q_limit = 5000, q_offset = 0\<rparr>,
          WriteSyncState 1000]
   \<and> db (snd (dob_permits_sync demo_env demo_pg historical (quiet_world empty_store [])))
       = clock_store
   \<and> dataset_sync_state clock_store = [(''ipu4-2q9a'', 1000)]
   \<and> sr_success (fst (dob_permits_sync demo_env demo_pg incremental
         (quiet_world clock_store [late_record])))
   \<and> dataset_sync_state (db (snd (dob_permits_sync demo_env demo_pg incremental
         (quiet_world clock_store [late_record])))) = [(''ipu4-2q9a'', 5)]"
  by (simp add: sync_eval upsert_eval historical_def incremental_def clock_store_def
      empty_store_def late_record_def numeral_3_eq_3)

text \<open>
  C2, as it holds of every run, whatever the faults: a run that fails, or that has a
  \<open>since\<close> or an \<open>until\<close>, leaves \<open>dataset_sync_state\<close> as it was.  A run that changes it
  writes one value for the dataset: the \<open>lastSyncedUpdatedAt\<close> of its response or, for a
  historical run that reports none, the clock; in incremental mode the value is above the
  watermark the run started from, the newest \<open>updated_at\<close> of the permits table.
\<close>

theorem sync_state_persistence:
  assumes "sync_with ps env pg req w = (resp, w')"
  shows "(\<not> sr_success resp \<or> sq_since req \<noteq> None \<or> sq_until req \<noteq> None
            \<longrightarrow> dataset_sync_state (db w') = dataset_sync_state (db w))
         \<and> (dataset_sync_state (db w') = dataset_sync_state (db w)
            \<or> (\<exists>v. dataset_sync_state (db w')
                       = upsert_by fst (''ipu4-2q9a'', v) (dataset_sync_state (db w))
                   \<and> (sr_mode resp = ''incremental'' \<longrightarrow> current_dob_watermark (db w) < v)
                   \<and> (sr_lastSyncedUpdatedAt resp = Some v
                       \<or> (sr_mode resp = ''historical'' \<and> sr_lastSyncedUpdatedAt resp = None
                           \<and> v = now env))))"
  using sync_with_outcome[OF assms] unfolding sync_state_outcome_def .

theorem sync_state_persistence_witness:
  "sr_success (fst (dob_permits_sync demo_env demo_pg incremental (quiet_world empty_store [late_record])))
   \<and> sr_mode (fst (dob_permits_sync demo_env demo_pg incremental
        (quiet_world empty_store [late_record]))) = ''incremental''
   \<and> sr_lastSyncedUpdatedAt (fst (dob_permits_sync demo_env demo_pg incremental
        (quiet_world empty_store [late_record]))) = Some 5
   \<and> dataset_sync_state (db (snd (dob_permits_sync demo_env demo_pg incremental
        (quiet_world empty_store [late_record])))) = [(''ipu4-2q9a'', 5)]
   \<and> current_dob_watermark empty_store < 5"
  using sync_state_persistence
    [of PAGE_SIZE demo_env demo_pg incremental "quiet_world empty_store [late_record]"
        "fst (dob_permits_sync demo_env demo_pg incremental (quiet_world empty_store [late_record]))"
        "snd (dob_permits_sync demo_env demo_pg incremental (quiet_world empty_store [late_record]))"]
  by (simp add: sync_eval upsert_eval incremental_def empty_store_def late_record_def
      numeral_3_eq_3)


end
